theory Spec2Isabelle
  imports Main "HOL-Library.Product_Lexorder"
begin

section \<open>The calendar dates of the host language\<close>

text \<open>
  The holiday module \<^verbatim>\<open>rondas/festivos_colombia.py\<close> computes with the standard
  library's \<^verbatim>\<open>datetime.date\<close> and \<^verbatim>\<open>timedelta\<close>. A date is a triple of year, month
  and day of the proleptic Gregorian calendar, restricted to the years 1 to 9999; the
  constructor raises \<^verbatim>\<open>ValueError\<close> outside that range (\<^verbatim>\<open>OverflowError\<close> for an argument
  that does not fit a C integer) and date arithmetic raises \<^verbatim>\<open>OverflowError\<close> when it
  leaves the range. Integers are unbounded, \<^verbatim>\<open>//\<close> and \<^verbatim>\<open>%\<close> round
  towards minus infinity, as \<open>div\<close> and \<open>mod\<close> on \<^typ>\<open>int\<close> do.
\<close>

datatype error = ValueError | OverflowError

record date =
  year :: int
  month :: int
  day :: int

definition bindE :: "error + 'a \<Rightarrow> ('a \<Rightarrow> error + 'b) \<Rightarrow> error + 'b" where
  "bindE r f = (case r of Inl e \<Rightarrow> Inl e | Inr v \<Rightarrow> f v)"

fun mapE :: "('a \<Rightarrow> error + 'b) \<Rightarrow> 'a list \<Rightarrow> error + 'b list" where
  "mapE f [] = Inr []"
| "mapE f (x # xs) =
     (case f x of Inl e \<Rightarrow> Inl e
      | Inr v \<Rightarrow> (case mapE f xs of Inl e \<Rightarrow> Inl e | Inr vs \<Rightarrow> Inr (v # vs)))"

definition MINYEAR :: int where "MINYEAR = 1"

definition MAXYEAR :: int where "MAXYEAR = 9999"

definition MAXORDINAL :: int where "MAXORDINAL = 3652059"

definition DAYS_IN_MONTH :: "int list" where
  "DAYS_IN_MONTH = [-1, 31, 28, 31, 30, 31, 30, 31, 31, 30, 31, 30, 31]"

definition DAYS_BEFORE_MONTH :: "int list" where
  "DAYS_BEFORE_MONTH = [-1, 0, 31, 59, 90, 120, 151, 181, 212, 243, 273, 304, 334]"

definition is_leap :: "int \<Rightarrow> bool" where
  "is_leap y = (y mod 4 = 0 \<and> (y mod 100 \<noteq> 0 \<or> y mod 400 = 0))"

definition days_before_year :: "int \<Rightarrow> int" where
  "days_before_year yr = (let y = yr - 1 in y * 365 + y div 4 - y div 100 + y div 400)"

definition days_in_month :: "int \<Rightarrow> int \<Rightarrow> int" where
  "days_in_month y m = (if m = 2 \<and> is_leap y then 29 else DAYS_IN_MONTH ! nat m)"

definition days_before_month :: "int \<Rightarrow> int \<Rightarrow> int" where
  "days_before_month y m =
     DAYS_BEFORE_MONTH ! nat m + (if m > 2 \<and> is_leap y then 1 else 0)"

definition ymd2ord :: "int \<Rightarrow> int \<Rightarrow> int \<Rightarrow> int" where
  "ymd2ord y m d = days_before_year y + days_before_month y m + d"

definition DI400Y :: int where "DI400Y = 146097"

definition DI100Y :: int where "DI100Y = 36524"

definition DI4Y :: int where "DI4Y = 1461"

text \<open>
  The inverse of \<open>ymd2ord\<close>, as the library computes it: the number of completed
  400-year, 100-year, 4-year and 1-year cycles, then a month estimate that is either
  exact or one too large.
\<close>

definition ord2ymd :: "int \<Rightarrow> date" where
  "ord2ymd ordinal =
     (let n = ordinal - 1;
          n400 = n div DI400Y; r400 = n mod DI400Y;
          n100 = r400 div DI100Y; r100 = r400 mod DI100Y;
          n4 = r100 div DI4Y; r4 = r100 mod DI4Y;
          n1 = r4 div 365; r1 = r4 mod 365;
          yr = n400 * 400 + 1 + n100 * 100 + n4 * 4 + n1
      in if n1 = 4 \<or> n100 = 4 then \<lparr>year = yr - 1, month = 12, day = 31\<rparr>
         else
           let leapyear = (n1 = 3 \<and> (n4 \<noteq> 24 \<or> n100 = 3));
               mo = (r1 + 50) div 32;
               preceding = DAYS_BEFORE_MONTH ! nat mo + (if mo > 2 \<and> leapyear then 1 else 0)
           in if preceding > r1
              then \<lparr>year = yr, month = mo - 1,
                     day = r1 - (preceding - (DAYS_IN_MONTH ! nat (mo - 1)
                              + (if mo - 1 = 2 \<and> leapyear then 1 else 0))) + 1\<rparr>
              else \<lparr>year = yr, month = mo, day = r1 - preceding + 1\<rparr>)"

text \<open>
  \<^verbatim>\<open>date(y, m, d)\<close>: the constructor is written in C and first converts its three
  arguments to C integers of 32 bits; an argument that does not fit raises
  \<^verbatim>\<open>OverflowError\<close>. Then it checks the three fields and raises \<^verbatim>\<open>ValueError\<close>.
\<close>

definition c_int :: "int \<Rightarrow> bool" where
  "c_int x = (- 2147483648 \<le> x \<and> x \<le> 2147483647)"

definition mk_date :: "int \<Rightarrow> int \<Rightarrow> int \<Rightarrow> error + date" where
  "mk_date y m d =
     (if \<not> (c_int y \<and> c_int m \<and> c_int d) then Inl OverflowError
      else if \<not> (MINYEAR \<le> y \<and> y \<le> MAXYEAR) then Inl ValueError
      else if \<not> (1 \<le> m \<and> m \<le> 12) then Inl ValueError
      else if \<not> (1 \<le> d \<and> d \<le> days_in_month y m) then Inl ValueError
      else Inr \<lparr>year = y, month = m, day = d\<rparr>)"

text \<open>The dates that exist as values of the type: those the constructor accepts.\<close>

definition valid_date :: "date \<Rightarrow> bool" where
  "valid_date f = (MINYEAR \<le> year f \<and> year f \<le> MAXYEAR \<and> 1 \<le> month f \<and> month f \<le> 12
                   \<and> 1 \<le> day f \<and> day f \<le> days_in_month (year f) (month f))"

definition toordinal :: "date \<Rightarrow> int" where
  "toordinal f = ymd2ord (year f) (month f) (day f)"

text \<open>\<^verbatim>\<open>fecha.weekday()\<close>: Monday is 0 and Sunday is 6.\<close>

definition weekday :: "date \<Rightarrow> int" where
  "weekday f = (toordinal f + 6) mod 7"

text \<open>\<^verbatim>\<open>fecha + timedelta(days=k)\<close>; a subtraction is the addition of \<open>- k\<close>.\<close>

definition date_add :: "date \<Rightarrow> int \<Rightarrow> error + date" where
  "date_add f k =
     (let ordinal = toordinal f + k
      in if 0 < ordinal \<and> ordinal \<le> MAXORDINAL then Inr (ord2ymd ordinal)
         else Inl OverflowError)"

text \<open>Dates compare as their (year, month, day) triples.\<close>

definition date_key :: "date \<Rightarrow> int \<times> int \<times> int" where
  "date_key f = (year f, month f, day f)"

definition date_less :: "date \<Rightarrow> date \<Rightarrow> bool" where
  "date_less a b = (date_key a < date_key b)"

section \<open>The holiday calculator\<close>

definition FESTIVOS_FIJOS :: "(int \<times> int) list" where
  "FESTIVOS_FIJOS = [(1, 1), (5, 1), (7, 20), (8, 7), (12, 8), (12, 25)]"

definition FESTIVOS_TRASLADABLES :: "(int \<times> int) list" where
  "FESTIVOS_TRASLADABLES = [(1, 6), (3, 19), (6, 29), (8, 15), (10, 12), (11, 1), (11, 11)]"

text \<open>
  \<^verbatim>\<open>calcular_domingo_pascua(a\~no)\<close>: the congruences of the source, line by line, and
  the date constructor at the end. (The source's parameter is spelt with an n-tilde;
  it is \<open>anio\<close> here.)
\<close>

definition calcular_domingo_pascua :: "int \<Rightarrow> error + date" where
  "calcular_domingo_pascua anio =
     (let a = anio mod 19;
          b = anio div 100;
          c = anio mod 100;
          d = b div 4;
          e = b mod 4;
          f = (b + 8) div 25;
          g = (b - f + 1) div 3;
          h = (19 * a + b - d - g + 15) mod 30;
          i = c div 4;
          k = c mod 4;
          l = (32 + 2 * e + 2 * i - h - k) mod 7;
          m = (a + 11 * h + 22 * l) div 451;
          n = (h + l - 7 * m + 114) div 31;
          p = (h + l - 7 * m + 114) mod 31
      in mk_date anio n (p + 1))"

text \<open>
  The Monday rule. The source repeats these lines verbatim four times: in the loop over
  \<^verbatim>\<open>FESTIVOS_TRASLADABLES\<close> and for Ascension, Corpus Christi and Sacred Heart.
  \<open>dias_hasta_lunes\<close> is the first assignment to the variable of that name and
  \<open>guarda_cero\<close> the \<^verbatim>\<open>if dias_hasta_lunes == 0\<close> that follows it.
\<close>

definition dias_hasta_lunes :: "int \<Rightarrow> int" where
  "dias_hasta_lunes w = (7 - w) mod 7"

definition guarda_cero :: "int \<Rightarrow> int" where
  "guarda_cero s = (if s = 0 then 7 else s)"

definition trasladar_a_lunes :: "date \<Rightarrow> error + date" where
  "trasladar_a_lunes fecha_original =
     (if weekday fecha_original \<noteq> 0
      then date_add fecha_original (guarda_cero (dias_hasta_lunes (weekday fecha_original)))
      else Inr fecha_original)"

text \<open>
  \<^verbatim>\<open>obtener_festivos_a\~no\<close> appends to one list in three stages and sorts it at the
  end; the stages are named here so that the claims can speak of them. An exception in
  any stage ends the call, so the stages are chained with \<open>bindE\<close> in source order.
\<close>

definition festivos_fijos :: "int \<Rightarrow> error + date list" where
  "festivos_fijos anio = mapE (\<lambda>(mes, dia). mk_date anio mes dia) FESTIVOS_FIJOS"

definition festivos_trasladables :: "int \<Rightarrow> error + date list" where
  "festivos_trasladables anio =
     mapE (\<lambda>(mes, dia). bindE (mk_date anio mes dia) trasladar_a_lunes) FESTIVOS_TRASLADABLES"

definition festivos_pascua :: "int \<Rightarrow> error + date list" where
  "festivos_pascua anio =
     bindE (calcular_domingo_pascua anio) (\<lambda>domingo_pascua.
     bindE (date_add domingo_pascua (- 3)) (\<lambda>jueves_santo.
     bindE (date_add domingo_pascua (- 2)) (\<lambda>viernes_santo.
     bindE (bindE (date_add domingo_pascua 39) trasladar_a_lunes) (\<lambda>ascension.
     bindE (bindE (date_add domingo_pascua 60) trasladar_a_lunes) (\<lambda>corpus_christi.
     bindE (bindE (date_add domingo_pascua 68) trasladar_a_lunes) (\<lambda>sagrado_corazon.
       Inr [jueves_santo, viernes_santo, ascension, corpus_christi, sagrado_corazon]))))))"

text \<open>The list as it stands before \<^verbatim>\<open>sorted\<close>.\<close>

definition festivos_sin_ordenar :: "int \<Rightarrow> error + date list" where
  "festivos_sin_ordenar anio =
     bindE (festivos_fijos anio) (\<lambda>fijos.
     bindE (festivos_trasladables anio) (\<lambda>trasladables.
     bindE (festivos_pascua anio) (\<lambda>pascua.
       Inr (fijos @ trasladables @ pascua))))"

definition obtener_festivos_anio :: "int \<Rightarrow> error + date list" where
  "obtener_festivos_anio anio =
     bindE (festivos_sin_ordenar anio) (\<lambda>festivos. Inr (sort_key date_key festivos))"

definition es_festivo :: "date \<Rightarrow> error + bool" where
  "es_festivo fecha =
     bindE (obtener_festivos_anio (year fecha)) (\<lambda>festivos_anio. Inr (fecha \<in> set festivos_anio))"

section \<open>Predicates of the statements\<close>

text \<open>
  These are not part of the program: they name what the lemmas and the claims say about
  it.
\<close>

text \<open>
  What the month search of \<open>ord2ymd\<close> must deliver for the day \<open>r\<close> (counted from 0)
  of a year: a month, a day of that month, and the right number of days before it.
\<close>

definition month_ok :: "bool \<Rightarrow> int \<Rightarrow> int \<Rightarrow> int \<Rightarrow> bool" where
  "month_ok lp r m d = (1 \<le> m \<and> m \<le> 12 \<and> 1 \<le> d
      \<and> d \<le> (if m = 2 \<and> lp then 29 else DAYS_IN_MONTH ! nat m)
      \<and> DAYS_BEFORE_MONTH ! nat m + (if m > 2 \<and> lp then 1 else 0) + d = r + 1)"

text \<open>The outcome of the Monday rule for an original date and the holiday observed.\<close>

definition regla_lunes :: "date \<Rightarrow> date \<Rightarrow> bool" where
  "regla_lunes original festivo =
     (weekday festivo = 0
      \<and> (if weekday original = 0 then festivo = original
         else 1 \<le> toordinal festivo - toordinal original
              \<and> toordinal festivo - toordinal original \<le> 6))"

text \<open>A date of the year \<open>anio\<close> that exists.\<close>

definition en_anio :: "int \<Rightarrow> date \<Rightarrow> bool" where
  "en_anio anio f = (valid_date f \<and> year f = anio)"

text \<open>A business day: Monday to Friday, and not a holiday of its own year.\<close>

definition dia_habil :: "date \<Rightarrow> bool" where
  "dia_habil f = (weekday f < 5 \<and> es_festivo f = Inr False)"

text \<open>\<open>g\<close> is the first business day after \<open>f\<close>, in the order of the dates.\<close>

definition primer_habil_despues :: "date \<Rightarrow> date \<Rightarrow> bool" where
  "primer_habil_despues f g =
     (valid_date g \<and> date_less f g \<and> dia_habil g
      \<and> (\<forall>x. valid_date x \<and> date_less f x \<and> date_less x g \<longrightarrow> \<not> dia_habil x))"

text \<open>The last date of the type, \<^verbatim>\<open>date.max\<close>.\<close>

definition date_max :: date where
  "date_max = \<lparr>year = 9999, month = 12, day = 31\<rparr>"

text \<open>
  What is asked of Easter in one year: it is computed, it lies in that year, in March or
  April, and on a Sunday (weekday 6).
\<close>

definition pascua_en_domingo :: "int \<Rightarrow> bool" where
  "pascua_en_domingo anio =
     (case calcular_domingo_pascua anio of
        Inl e \<Rightarrow> False
      | Inr f \<Rightarrow> year f = anio \<and> (month f = 3 \<or> month f = 4) \<and> weekday f = 6)"

section \<open>Facts about the calendar\<close>

subsection \<open>From an ordinal back to a date\<close>

lemma month_cases:
  fixes m :: int
  assumes "1 \<le> m" "m \<le> 12"
  obtains "m = 1" | "m = 2" | "m = 3" | "m = 4" | "m = 5" | "m = 6"
    | "m = 7" | "m = 8" | "m = 9" | "m = 10" | "m = 11" | "m = 12"
proof -
  have "m = 1 \<or> m = 2 \<or> m = 3 \<or> m = 4 \<or> m = 5 \<or> m = 6
      \<or> m = 7 \<or> m = 8 \<or> m = 9 \<or> m = 10 \<or> m = 11 \<or> m = 12"
    using assms by presburger
  then show thesis using that by blast
qed

lemma month_part:
  fixes lp :: bool
  assumes "0 \<le> r" "r \<le> 364"
  defines "mo \<equiv> (r + 50) div 32"
  assumes preceding_def: "preceding = DAYS_BEFORE_MONTH ! nat mo + (if mo > 2 \<and> lp then 1 else 0)"
  shows "if preceding > r
         then month_ok lp r (mo - 1) (r - (preceding - (DAYS_IN_MONTH ! nat (mo - 1)
                              + (if mo - 1 = 2 \<and> lp then 1 else 0))) + 1)
         else month_ok lp r mo (r - preceding + 1)"
proof -
  have "1 \<le> mo" "mo \<le> 12" using assms(1,2) unfolding mo_def by arith+
  then show ?thesis
  proof (cases rule: month_cases)
    case 1
    then have "r < 14" unfolding mo_def using assms(1) by arith
    then show ?thesis using 1 assms(1) unfolding preceding_def month_ok_def
      by (simp add: DAYS_IN_MONTH_def DAYS_BEFORE_MONTH_def)
  next
    case 2
    then have "14 \<le> r" "r < 46" unfolding mo_def by arith+
    then show ?thesis using 2 unfolding preceding_def month_ok_def
      by (simp add: DAYS_IN_MONTH_def DAYS_BEFORE_MONTH_def)
  next
    case 3
    then have "46 \<le> r" "r < 78" unfolding mo_def by arith+
    then show ?thesis using 3 unfolding preceding_def month_ok_def
      by (simp add: DAYS_IN_MONTH_def DAYS_BEFORE_MONTH_def)
  next
    case 4
    then have "78 \<le> r" "r < 110" unfolding mo_def by arith+
    then show ?thesis using 4 unfolding preceding_def month_ok_def
      by (simp add: DAYS_IN_MONTH_def DAYS_BEFORE_MONTH_def)
  next
    case 5
    then have "110 \<le> r" "r < 142" unfolding mo_def by arith+
    then show ?thesis using 5 unfolding preceding_def month_ok_def
      by (simp add: DAYS_IN_MONTH_def DAYS_BEFORE_MONTH_def)
  next
    case 6
    then have "142 \<le> r" "r < 174" unfolding mo_def by arith+
    then show ?thesis using 6 unfolding preceding_def month_ok_def
      by (simp add: DAYS_IN_MONTH_def DAYS_BEFORE_MONTH_def)
  next
    case 7
    then have "174 \<le> r" "r < 206" unfolding mo_def by arith+
    then show ?thesis using 7 unfolding preceding_def month_ok_def
      by (simp add: DAYS_IN_MONTH_def DAYS_BEFORE_MONTH_def)
  next
    case 8
    then have "206 \<le> r" "r < 238" unfolding mo_def by arith+
    then show ?thesis using 8 unfolding preceding_def month_ok_def
      by (simp add: DAYS_IN_MONTH_def DAYS_BEFORE_MONTH_def)
  next
    case 9
    then have "238 \<le> r" "r < 270" unfolding mo_def by arith+
    then show ?thesis using 9 unfolding preceding_def month_ok_def
      by (simp add: DAYS_IN_MONTH_def DAYS_BEFORE_MONTH_def)
  next
    case 10
    then have "270 \<le> r" "r < 302" unfolding mo_def by arith+
    then show ?thesis using 10 unfolding preceding_def month_ok_def
      by (simp add: DAYS_IN_MONTH_def DAYS_BEFORE_MONTH_def)
  next
    case 11
    then have "302 \<le> r" "r < 334" unfolding mo_def by arith+
    then show ?thesis using 11 unfolding preceding_def month_ok_def
      by (simp add: DAYS_IN_MONTH_def DAYS_BEFORE_MONTH_def)
  next
    case 12
    then have "334 \<le> r" unfolding mo_def by arith
    then show ?thesis using 12 assms(2) unfolding preceding_def month_ok_def
      by (simp add: DAYS_IN_MONTH_def DAYS_BEFORE_MONTH_def)
  qed
qed

lemma dby_cycles:
  assumes "0 \<le> n100" "n100 \<le> 3" "0 \<le> n4" "n4 \<le> 24" "0 \<le> n1" "n1 \<le> 3"
  shows "days_before_year (n400 * 400 + 1 + n100 * 100 + n4 * 4 + n1)
           = 146097 * n400 + 36524 * n100 + 1461 * n4 + 365 * n1"
proof -
  define y where "y = n400 * 400 + n100 * 100 + n4 * 4 + n1"
  have a: "y div 4 = 100 * n400 + 25 * n100 + n4" unfolding y_def using assms by arith
  have b: "y div 100 = 4 * n400 + n100" unfolding y_def using assms by arith
  have c: "y div 400 = n400" unfolding y_def using assms by arith
  have e: "n400 * 400 + 1 + n100 * 100 + n4 * 4 + n1 - 1 = y" by (simp add: y_def)
  have "days_before_year (n400 * 400 + 1 + n100 * 100 + n4 * 4 + n1)
          = y * 365 + y div 4 - y div 100 + y div 400"
    unfolding days_before_year_def Let_def e ..
  also have "\<dots> = 146097 * n400 + 36524 * n100 + 1461 * n4 + 365 * n1"
    unfolding a b c by (simp add: y_def)
  finally show ?thesis .
qed

lemma mod_zero_shift:
  fixes r :: int
  assumes "0 < r" "r \<le> M"
  shows "((r + M * q) mod M = 0) = (r = M)"
proof (cases "r = M")
  case True
  then show ?thesis by simp
next
  case False
  then have "r < M" using assms by simp
  then have "r mod M = r" using assms by simp
  then show ?thesis using False assms by simp
qed

lemma leap_cycles:
  assumes "0 \<le> n100" "n100 \<le> 3" "0 \<le> n4" "n4 \<le> 24" "0 \<le> n1" "n1 \<le> 3"
  shows "is_leap (n400 * 400 + 1 + n100 * 100 + n4 * 4 + n1)
           = (n1 = 3 \<and> (n4 \<noteq> 24 \<or> n100 = 3))"
proof -
  define y where "y = n400 * 400 + 1 + n100 * 100 + n4 * 4 + n1"
  have y4: "y = (1 + n1) + 4 * (n400 * 100 + n100 * 25 + n4)" by (simp add: y_def)
  have y100: "y = (1 + n4 * 4 + n1) + 100 * (n400 * 4 + n100)" by (simp add: y_def)
  have y400: "y = (1 + n100 * 100 + n4 * 4 + n1) + 400 * n400" by (simp add: y_def)
  have k1: "(n4 * 4 + n1 = 99) = (n4 = 24 \<and> n1 = 3)" using assms by arith
  have k2: "(n100 * 100 + n4 * 4 + n1 = 399) = (n100 = 3 \<and> n4 = 24 \<and> n1 = 3)"
    using assms by arith
  have a: "(y mod 4 = 0) = (n1 = 3)"
    using mod_zero_shift[of "1 + n1" 4 "n400 * 100 + n100 * 25 + n4"] assms
    unfolding y4[symmetric] by auto
  have b: "(y mod 100 = 0) = (n4 = 24 \<and> n1 = 3)"
    using mod_zero_shift[of "1 + n4 * 4 + n1" 100 "n400 * 4 + n100"] assms k1
    unfolding y100[symmetric] by auto
  have c: "(y mod 400 = 0) = (n100 = 3 \<and> n4 = 24 \<and> n1 = 3)"
    using mod_zero_shift[of "1 + n100 * 100 + n4 * 4 + n1" 400 n400] assms k2
    unfolding y400[symmetric] by auto
  show ?thesis unfolding is_leap_def y_def[symmetric] a b c by auto
qed

lemma ord2ymd_correct:
  assumes "1 \<le> ordinal" "ordinal \<le> MAXORDINAL"
  shows "valid_date (ord2ymd ordinal) \<and> toordinal (ord2ymd ordinal) = ordinal"
proof -
  define n where "n = ordinal - 1"
  define n400 where "n400 = n div DI400Y"
  define r400 where "r400 = n mod DI400Y"
  define n100 where "n100 = r400 div DI100Y"
  define r100 where "r100 = r400 mod DI100Y"
  define n4 where "n4 = r100 div DI4Y"
  define r4 where "r4 = r100 mod DI4Y"
  define n1 where "n1 = r4 div 365"
  define r1 where "r1 = r4 mod 365"
  define yr where "yr = n400 * 400 + 1 + n100 * 100 + n4 * 4 + n1"
  define leapyear where "leapyear = (n1 = 3 \<and> (n4 \<noteq> 24 \<or> n100 = 3))"
  define mo where "mo = (r1 + 50) div 32"
  define preceding where
    "preceding = DAYS_BEFORE_MONTH ! nat mo + (if mo > 2 \<and> leapyear then 1 else 0)"
  have unf: "ord2ymd ordinal =
      (if n1 = 4 \<or> n100 = 4 then \<lparr>year = yr - 1, month = 12, day = 31\<rparr>
       else if preceding > r1
            then \<lparr>year = yr, month = mo - 1,
                   day = r1 - (preceding - (DAYS_IN_MONTH ! nat (mo - 1)
                            + (if mo - 1 = 2 \<and> leapyear then 1 else 0))) + 1\<rparr>
            else \<lparr>year = yr, month = mo, day = r1 - preceding + 1\<rparr>)"
    unfolding ord2ymd_def Let_def preceding_def mo_def leapyear_def yr_def r1_def n1_def
      r4_def n4_def r100_def n100_def r400_def n400_def n_def ..
  have n0: "0 \<le> n" "n \<le> 3652058" using assms by (simp_all add: n_def MAXORDINAL_def)
  have d400: "n = 146097 * n400 + r400" "0 \<le> r400" "r400 < 146097"
    by (simp_all add: n400_def r400_def DI400Y_def)
  have d100: "r400 = 36524 * n100 + r100" "0 \<le> r100" "r100 < 36524"
    by (simp_all add: n100_def r100_def DI100Y_def)
  have d4: "r100 = 1461 * n4 + r4" "0 \<le> r4" "r4 < 1461"
    by (simp_all add: n4_def r4_def DI4Y_def)
  have d1: "r4 = 365 * n1 + r1" "0 \<le> r1" "r1 < 365"
    by (simp_all add: n1_def r1_def)
  have b400: "0 \<le> n400" "n400 \<le> 24" using n0 d400 by arith+
  have b100: "0 \<le> n100" "n100 \<le> 4" using d400 d100 by arith+
  have b4: "0 \<le> n4" "n4 \<le> 24" using d100 d4 by arith+
  have b1: "0 \<le> n1" "n1 \<le> 4" using d4 d1 by arith+
  show ?thesis
  proof (cases "n1 = 4 \<or> n100 = 4")
    case True
    define m4 where "m4 = (if n100 = 4 then 24 else n4)"
    define m100 where "m100 = (if n100 = 4 then 3 else n100)"
    have sp: "0 \<le> m100 \<and> m100 \<le> 3 \<and> 0 \<le> m4 \<and> m4 \<le> 24
      \<and> yr - 1 = n400 * 400 + 1 + m100 * 100 + m4 * 4 + 3
      \<and> n + 1 = 146097 * n400 + 36524 * m100 + 1461 * m4 + 365 * 3 + 366
      \<and> (m4 \<noteq> 24 \<or> m100 = 3)"
    proof (cases "n100 = 4")
      case c: True
      have "r100 = 0" using c d100(1,2) d400(3) by simp
      then have "n4 = 0" "r4 = 0" by (simp_all add: n4_def r4_def)
      then have "n1 = 0" by (simp add: n1_def)
      then show ?thesis using c \<open>n4 = 0\<close> \<open>r100 = 0\<close> d400(1) d100(1)
        by (simp add: m4_def m100_def yr_def)
    next
      case c: False
      then have n1: "n1 = 4" using True by simp
      have "r1 = 0" using n1 d1(1,2) d4(3) by simp
      then have r4: "r4 = 1460" using n1 d1(1) by simp
      have "1461 * n4 < 35064" using r4 d4(1) d100(3) by simp
      then have n4: "n4 \<le> 23" by simp
      have "n100 \<le> 3" using c b100 by simp
      then show ?thesis using c n1 r4 n4 b100 b4 d400(1) d100(1) d4(1)
        by (simp add: m4_def m100_def yr_def)
    qed
    note sp = sp[THEN conjunct1] sp[THEN conjunct2, THEN conjunct1]
      sp[THEN conjunct2, THEN conjunct2, THEN conjunct1]
      sp[THEN conjunct2, THEN conjunct2, THEN conjunct2, THEN conjunct1]
      sp[THEN conjunct2, THEN conjunct2, THEN conjunct2, THEN conjunct2, THEN conjunct1]
      sp[THEN conjunct2, THEN conjunct2, THEN conjunct2, THEN conjunct2, THEN conjunct2, THEN conjunct1]
      sp[THEN conjunct2, THEN conjunct2, THEN conjunct2, THEN conjunct2, THEN conjunct2, THEN conjunct2]
    have dby: "days_before_year (yr - 1) = 146097 * n400 + 36524 * m100 + 1461 * m4 + 365 * 3"
      unfolding sp(5) using sp(1-4) by (intro dby_cycles) simp_all
    have lp: "is_leap (yr - 1)"
      unfolding sp(5) using sp(1-4,7) leap_cycles[of m100 m4 3 n400] by simp
    have "days_before_year (yr - 1) + 366 = n + 1" using dby sp(6) by simp
    have yb1: "1 \<le> yr - 1" using sp(1,3,5) b400 by simp
    have yb2: "yr - 1 \<le> 9999"
    proof (cases "n400 = 24")
      case c: True
      have "36524 * m100 + 1461 * m4 \<le> 144270" using sp(6) n0(2) c by simp
      then have "25 * m100 + m4 \<le> 98" using sp(1-4) by arith
      then show ?thesis using c sp(5) by simp
    next
      case False
      then have "n400 \<le> 23" using b400 by simp
      then show ?thesis using sp(1-5) by simp
    qed
    note yb = yb1 yb2
    have v: "valid_date \<lparr>year = yr - 1, month = 12, day = 31\<rparr>"
      using yb by (simp add: valid_date_def MINYEAR_def MAXYEAR_def days_in_month_def
          DAYS_IN_MONTH_def)
    have t: "toordinal \<lparr>year = yr - 1, month = 12, day = 31\<rparr> = ordinal"
      using dby lp sp(6)
      by (simp add: toordinal_def ymd2ord_def days_before_month_def DAYS_BEFORE_MONTH_def n_def)
    show ?thesis using True unf v t by simp
  next
    case False
    then have s: "n1 \<le> 3" "n100 \<le> 3" using b1 b100 by arith+
    have dby: "days_before_year yr = 146097 * n400 + 36524 * n100 + 1461 * n4 + 365 * n1"
      unfolding yr_def using s b100 b4 b1 by (intro dby_cycles) simp_all
    have lp: "is_leap yr = leapyear"
      unfolding yr_def leapyear_def using s b100 b4 b1 by (intro leap_cycles) simp_all
    have nn: "n = days_before_year yr + r1" using dby d400 d100 d4 d1 by simp
    have yb1: "1 \<le> yr" using b400 b100 b4 b1 unfolding yr_def by simp
    have yb2: "yr \<le> 9999"
    proof (cases "n400 = 24")
      case c: True
      have "36524 * n100 + 1461 * n4 + 365 * n1 \<le> 145730"
        using n0(2) c d400(1) d100(1) d4(1) d1(1,2) by simp
      then have "100 * n100 + 4 * n4 + n1 \<le> 398" using s b100 b4 b1 by arith
      then show ?thesis using c by (simp add: yr_def)
    next
      case False
      then have "n400 \<le> 23" using b400 by simp
      then show ?thesis using s b4 by (simp add: yr_def)
    qed
    note yb = yb1 yb2
    have r1b: "0 \<le> r1" "r1 \<le> 364" using d1 by simp_all
    note mp = month_part[OF r1b, of preceding leapyear, folded mo_def, OF preceding_def]
    show ?thesis
    proof (cases "preceding > r1")
      case True
      with mp have "month_ok leapyear r1 (mo - 1) (r1 - (preceding - (DAYS_IN_MONTH ! nat (mo - 1)
                              + (if mo - 1 = 2 \<and> leapyear then 1 else 0))) + 1)" by simp
      then show ?thesis using False True unf yb nn lp
        by (simp add: month_ok_def valid_date_def toordinal_def ymd2ord_def days_in_month_def
            days_before_month_def MINYEAR_def MAXYEAR_def n_def)
    next
      case F2: False
      with mp have "month_ok leapyear r1 mo (r1 - preceding + 1)" by simp
      then show ?thesis using False F2 unf yb nn lp
        by (simp add: month_ok_def valid_date_def toordinal_def ymd2ord_def days_in_month_def
            days_before_month_def MINYEAR_def MAXYEAR_def n_def)
    qed
  qed
qed

subsection \<open>The length of a year, the order of the dates\<close>

lemma div_step:
  fixes y k :: int
  assumes "0 < k"
  shows "y div k = (y - 1) div k + (if y mod k = 0 then 1 else 0)"
proof -
  define q where "q = (y - 1) div k"
  define r where "r = (y - 1) mod k"
  have e: "y - 1 = k * q + r" and rb: "0 \<le> r" "r < k"
    using assms by (simp_all add: q_def r_def)
  show ?thesis
  proof (cases "r + 1 = k")
    case True
    then have yy: "y = k * (q + 1)" using e by (simp add: algebra_simps)
    have "y div k = q + 1" by (subst yy) (use assms in simp)
    moreover have "y mod k = 0" by (subst yy) simp
    ultimately show ?thesis unfolding q_def[symmetric] by simp
  next
    case False
    then have lt: "0 \<le> r + 1" "r + 1 < k" using rb by simp_all
    have yy: "y = (r + 1) + k * q" using e by simp
    have "y div k = q" by (subst yy) (use lt assms in simp)
    moreover have "y mod k = r + 1" by (subst yy) (use lt in simp)
    ultimately show ?thesis unfolding q_def[symmetric] using rb by simp
  qed
qed

lemma dby_step:
  "days_before_year (y + 1) = days_before_year y + (if is_leap y then 366 else 365)"
proof -
  define A where "A = (y - 1) div 4"
  define B where "B = (y - 1) div 100"
  define C where "C = (y - 1) div 400"
  have a: "y div 4 = A + (if y mod 4 = 0 then 1 else 0)" unfolding A_def by (rule div_step) simp
  have b: "y div 100 = B + (if y mod 100 = 0 then 1 else 0)" unfolding B_def by (rule div_step) simp
  have c: "y div 400 = C + (if y mod 400 = 0 then 1 else 0)" unfolding C_def by (rule div_step) simp
  have m1: "y mod 100 = 0 \<Longrightarrow> y mod 4 = 0"
    using mod_mod_cancel[of 4 100 y] by simp
  have m2: "y mod 400 = 0 \<Longrightarrow> y mod 100 = 0"
    using mod_mod_cancel[of 100 400 y] by simp
  have l: "days_before_year (y + 1) = y * 365 + y div 4 - y div 100 + y div 400"
    by (simp add: days_before_year_def)
  have r: "days_before_year y = (y - 1) * 365 + A - B + C"
    by (simp add: days_before_year_def Let_def A_def B_def C_def)
  show ?thesis unfolding l r a b c is_leap_def using m1 m2
    by (cases "y mod 4 = 0"; cases "y mod 100 = 0"; cases "y mod 400 = 0")
       (simp_all add: algebra_simps)
qed

lemma dby_mono_aux: "0 \<le> k \<Longrightarrow> days_before_year y + 365 * k \<le> days_before_year (y + k)"
proof (induction k rule: int_ge_induct)
  case base
  then show ?case by simp
next
  case (step i)
  have "days_before_year (y + (i + 1)) = days_before_year (y + i + 1)" by (simp add: add.assoc)
  also have "\<dots> \<ge> days_before_year (y + i) + 365" unfolding dby_step by simp
  finally show ?case using step by simp
qed

lemma dby_less: "y < y' \<Longrightarrow> days_before_year (y + 1) \<le> days_before_year y'"
  using dby_mono_aux[of "y' - (y + 1)" "y + 1"] by simp

lemma dby_mono: "y \<le> y' \<Longrightarrow> days_before_year y \<le> days_before_year y'"
  using dby_mono_aux[of "y' - y" y] by simp

lemma month_set:
  fixes m :: int
  assumes "1 \<le> m" "m \<le> 12"
  shows "m \<in> {1, 2, 3, 4, 5, 6, 7, 8, 9, 10, 11, 12}"
  using assms by (cases rule: month_cases) simp_all

lemma dbm_mono:
  assumes "1 \<le> m" "m < m'" "m' \<le> 12"
  shows "days_before_month y m + days_in_month y m \<le> days_before_month y m'"
proof -
  have "m \<in> {1, 2, 3, 4, 5, 6, 7, 8, 9, 10, 11, 12}"
    using assms by (intro month_set) simp_all
  moreover have "m' \<in> {1, 2, 3, 4, 5, 6, 7, 8, 9, 10, 11, 12}"
    using assms by (intro month_set) simp_all
  ultimately show ?thesis using assms(2) unfolding days_before_month_def days_in_month_def
      DAYS_BEFORE_MONTH_def DAYS_IN_MONTH_def
    by auto
qed

lemma dbm_year:
  assumes "1 \<le> m" "m \<le> 12"
  shows "0 \<le> days_before_month y m"
    "days_before_month y m + days_in_month y m \<le> (if is_leap y then 366 else 365)"
proof -
  have "m \<in> {1, 2, 3, 4, 5, 6, 7, 8, 9, 10, 11, 12}" using assms by (rule month_set)
  then show "0 \<le> days_before_month y m"
    "days_before_month y m + days_in_month y m \<le> (if is_leap y then 366 else 365)"
    unfolding days_before_month_def days_in_month_def DAYS_BEFORE_MONTH_def DAYS_IN_MONTH_def
    by auto
qed

lemma toordinal_less:
  assumes "valid_date a" "valid_date b" "date_less a b"
  shows "toordinal a < toordinal b"
proof -
  have va: "1 \<le> month a" "month a \<le> 12" "1 \<le> day a" "day a \<le> days_in_month (year a) (month a)"
    and vb: "1 \<le> month b" "month b \<le> 12" "1 \<le> day b" "day b \<le> days_in_month (year b) (month b)"
    using assms(1,2) by (simp_all add: valid_date_def)
  consider "year a < year b" | "year a = year b" "month a < month b"
    | "year a = year b" "month a = month b" "day a < day b"
    using assms(3) by (auto simp: date_less_def date_key_def order_le_less)
  then show ?thesis
  proof cases
    case 1
    have "toordinal a \<le> days_before_year (year a) + (if is_leap (year a) then 366 else 365)"
      using dbm_year(2)[OF va(1,2), of "year a"] va(4) by (simp add: toordinal_def ymd2ord_def)
    also have "\<dots> = days_before_year (year a + 1)" by (simp add: dby_step)
    also have "\<dots> \<le> days_before_year (year b)" using 1 by (rule dby_less)
    also have "\<dots> < toordinal b"
      using dbm_year(1)[OF vb(1,2), of "year b"] vb(3) by (simp add: toordinal_def ymd2ord_def)
    finally show ?thesis .
  next
    case 2
    have "days_before_month (year a) (month a) + day a \<le> days_before_month (year a) (month b)"
      using dbm_mono[OF va(1) 2(2) vb(2), of "year a"] va(4) by simp
    then show ?thesis using 2(1) vb(3) by (simp add: toordinal_def ymd2ord_def)
  next
    case 3
    then show ?thesis by (simp add: toordinal_def ymd2ord_def)
  qed
qed

lemma date_trichotomy: "date_less a b \<or> a = b \<or> date_less b a"
proof -
  have "date_key a < date_key b \<or> date_key a = date_key b \<or> date_key b < date_key a"
    by (rule less_linear)
  moreover have "date_key a = date_key b \<Longrightarrow> a = b" by (simp add: date_key_def)
  ultimately show ?thesis by (auto simp: date_less_def)
qed

lemma toordinal_inj:
  assumes "valid_date a" "valid_date b" "toordinal a = toordinal b"
  shows "a = b"
  using date_trichotomy[of a b] toordinal_less[OF assms(1,2)] toordinal_less[OF assms(2,1)]
    assms(3) by auto

lemma date_less_iff:
  assumes "valid_date a" "valid_date b"
  shows "date_less a b = (toordinal a < toordinal b)"
  using date_trichotomy[of a b] toordinal_less[OF assms(1,2)] toordinal_less[OF assms(2,1)]
  by auto

lemma toordinal_range:
  assumes "valid_date f"
  shows "1 \<le> toordinal f" "toordinal f \<le> MAXORDINAL"
    "days_before_year (year f) < toordinal f" "toordinal f \<le> days_before_year (year f + 1)"
proof -
  have v: "1 \<le> year f" "year f \<le> 9999" "1 \<le> month f" "month f \<le> 12" "1 \<le> day f"
    "day f \<le> days_in_month (year f) (month f)"
    using assms by (simp_all add: valid_date_def MINYEAR_def MAXYEAR_def)
  show lo: "days_before_year (year f) < toordinal f"
    using dbm_year(1)[OF v(3,4), of "year f"] v(5) by (simp add: toordinal_def ymd2ord_def)
  show hi: "toordinal f \<le> days_before_year (year f + 1)"
    using dbm_year(2)[OF v(3,4), of "year f"] v(6)
    by (simp add: toordinal_def ymd2ord_def dby_step)
  have "days_before_year 1 \<le> days_before_year (year f)" using v(1) by (rule dby_mono)
  moreover have "days_before_year 1 = 0" by (simp add: days_before_year_def)
  ultimately show "1 \<le> toordinal f" using lo by simp
  have "days_before_year (year f + 1) \<le> days_before_year 10000" using v(2) by (intro dby_mono) simp
  moreover have "days_before_year 10000 = 3652059" by (simp add: days_before_year_def)
  ultimately show "toordinal f \<le> MAXORDINAL" using hi by (simp add: MAXORDINAL_def)
qed

lemma ord2ymd_toordinal:
  assumes "valid_date f"
  shows "ord2ymd (toordinal f) = f"
proof -
  note r = toordinal_range(1,2)[OF assms]
  from ord2ymd_correct[OF r] show ?thesis using toordinal_inj[OF _ assms] by simp
qed

text \<open>The year of a valid date is determined by its ordinal.\<close>

lemma year_of_ordinal:
  assumes "valid_date f" "days_before_year y < toordinal f" "toordinal f \<le> days_before_year (y + 1)"
  shows "year f = y"
proof (rule ccontr)
  assume "year f \<noteq> y"
  then consider "year f < y" | "y < year f" by linarith
  then show False
  proof cases
    case 1
    then have "days_before_year (year f + 1) \<le> days_before_year y" by (rule dby_less)
    then show False using toordinal_range(4)[OF assms(1)] assms(2) by simp
  next
    case 2
    then have "days_before_year (y + 1) \<le> days_before_year (year f)" by (rule dby_less)
    then show False using toordinal_range(3)[OF assms(1)] assms(3) by simp
  qed
qed

lemma date_add_Inr:
  assumes "date_add f k = Inr g"
  shows "toordinal g = toordinal f + k" "valid_date g"
    "0 < toordinal f + k" "toordinal f + k \<le> MAXORDINAL"
proof -
  have r: "0 < toordinal f + k \<and> toordinal f + k \<le> MAXORDINAL" and g: "g = ord2ymd (toordinal f + k)"
    using assms by (auto simp: date_add_def Let_def split: if_splits)
  then have "1 \<le> toordinal f + k" by simp
  from ord2ymd_correct[OF this] r g
  show "toordinal g = toordinal f + k" "valid_date g"
    "0 < toordinal f + k" "toordinal f + k \<le> MAXORDINAL" by simp_all
qed

section \<open>The next business day and the round date\<close>

text \<open>
  \<^verbatim>\<open>obtener_siguiente_dia_habil\<close>: the \<^verbatim>\<open>while True\<close> loop adds one day and leaves when the
  day is a weekday and not a holiday; \<^verbatim>\<open>and\<close> does not evaluate the holiday test on a
  Saturday or Sunday. The loop has no bound of its own: it ends because the addition
  raises \<^verbatim>\<open>OverflowError\<close> past the last date.
\<close>

function obtener_siguiente_dia_habil :: "date \<Rightarrow> error + date" where
  "obtener_siguiente_dia_habil fecha =
     (case date_add fecha 1 of
        Inl e \<Rightarrow> Inl e
      | Inr siguiente_dia \<Rightarrow>
          (if weekday siguiente_dia < 5
           then (case es_festivo siguiente_dia of
                   Inl e \<Rightarrow> Inl e
                 | Inr festivo \<Rightarrow>
                     if \<not> festivo then Inr siguiente_dia
                     else obtener_siguiente_dia_habil siguiente_dia)
           else obtener_siguiente_dia_habil siguiente_dia))"
  by pat_completeness auto
termination
proof (relation "measure (\<lambda>f. nat (MAXORDINAL - toordinal f))")
  show "wf (measure (\<lambda>f. nat (MAXORDINAL - toordinal f)))" by simp
next
  fix fecha x2 x2a
  assume "date_add fecha 1 = Inr x2"
  from date_add_Inr[OF this]
  show "(x2, fecha) \<in> measure (\<lambda>f. nat (MAXORDINAL - toordinal f))" by simp
next
  fix fecha x2
  assume "date_add fecha 1 = Inr x2"
  from date_add_Inr[OF this]
  show "(x2, fecha) \<in> measure (\<lambda>f. nat (MAXORDINAL - toordinal f))" by simp
qed

definition ajustar_dia_rondas :: "date \<Rightarrow> error + (date \<times> bool)" where
  "ajustar_dia_rondas fecha =
     bindE (es_festivo fecha) (\<lambda>festivo.
       if festivo \<or> weekday fecha \<ge> 5
       then bindE (obtener_siguiente_dia_habil fecha) (\<lambda>fecha_ajustada. Inr (fecha_ajustada, True))
       else Inr (fecha, False))"

section \<open>Facts about the holiday calculator\<close>

subsection \<open>Easter\<close>

lemma weekday_range: "0 \<le> weekday f" "weekday f < 7" "weekday f \<le> 6"
  by (simp_all add: weekday_def)

lemma mk_date_Inr:
  assumes "mk_date y m d = Inr f"
  shows "f = \<lparr>year = y, month = m, day = d\<rparr>" "valid_date f" "1 \<le> y" "y \<le> 9999"
  using assms by (auto simp: mk_date_def valid_date_def MINYEAR_def MAXYEAR_def split: if_splits)

lemma mk_date_year_error:
  assumes "\<not> (1 \<le> y \<and> y \<le> 9999)" "c_int m" "c_int d"
  shows "mk_date y m d = Inl (if c_int y then ValueError else OverflowError)"
  using assms by (auto simp: mk_date_def MINYEAR_def MAXYEAR_def)

text \<open>The month and day that the congruences of \<open>calcular_domingo_pascua\<close> end with.\<close>

lemma mod_range:
  fixes x k :: int
  assumes "0 < k"
  shows "0 \<le> x mod k" "x mod k \<le> k - 1"
proof -
  show "0 \<le> x mod k" using assms by simp
  have "x mod k < k" using assms by simp
  then show "x mod k \<le> k - 1" by simp
qed

lemma div_mod_parts:
  fixes r k q :: int
  assumes "0 \<le> r" "r < k"
  shows "(r + k * q) div k = q" "(r + k * q) mod k = r"
  using assms by simp_all

lemma pascua_month_day:
  fixes a h l :: int
  assumes "0 \<le> a" "a \<le> 18" "0 \<le> h" "h \<le> 29" "0 \<le> l" "l \<le> 6"
  defines "m \<equiv> (a + 11 * h + 22 * l) div 451"
  defines "t \<equiv> h + l - 7 * m + 114"
  shows "(t div 31 = 3 \<and> 21 \<le> t mod 31 \<and> t mod 31 \<le> 30)
       \<or> (t div 31 = 4 \<and> 0 \<le> t mod 31 \<and> t mod 31 \<le> 25)"
proof -
  define s where "s = a + 11 * h + 22 * l"
  have s: "0 \<le> s" "s < 902" using assms(1-6) by (simp_all add: s_def)
  have tb: "114 \<le> t \<and> t \<le> 149"
  proof (cases "s < 451")
    case True
    have "s div 451 = 0" using s(1) True by simp
    then have "m = 0" by (simp add: m_def s_def)
    then show ?thesis using assms(3-6) by (simp add: t_def)
  next
    case False
    then have b: "0 \<le> s - 451" "s - 451 < 451" using s by simp_all
    have "s div 451 = 1" using div_mod_parts(1)[OF b, of 1] by simp
    then have m: "m = 1" by (simp add: m_def s_def)
    have "451 \<le> a + 11 * h + 22 * l" using False by (simp add: s_def)
    then have "7 \<le> h + l" using assms(1-6) by linarith
    then show ?thesis using m assms(4,6) by (simp add: t_def)
  qed
  show ?thesis
  proof (cases "t < 124")
    case True
    then have b: "0 \<le> t - 93" "t - 93 < 31" using tb by simp_all
    have "t div 31 = 3" "t mod 31 = t - 93"
      using div_mod_parts[OF b, of 3] by simp_all
    then show ?thesis using tb True by simp
  next
    case False
    then have b: "0 \<le> t - 124" "t - 124 < 31" using tb by simp_all
    have "t div 31 = 4" "t mod 31 = t - 124"
      using div_mod_parts[OF b, of 4] by simp_all
    then show ?thesis using tb False by simp
  qed
qed

lemma pascua_forma:
  obtains t where "calcular_domingo_pascua anio = mk_date anio (t div 31) (t mod 31 + 1)"
    "(t div 31 = 3 \<and> 21 \<le> t mod 31 \<and> t mod 31 \<le> 30)
       \<or> (t div 31 = 4 \<and> 0 \<le> t mod 31 \<and> t mod 31 \<le> 25)"
proof -
  define a where "a = anio mod 19"
  define b where "b = anio div 100"
  define c where "c = anio mod 100"
  define h where "h = (19 * a + b - b div 4 - (b - (b + 8) div 25 + 1) div 3 + 15) mod 30"
  define l where "l = (32 + 2 * (b mod 4) + 2 * (c div 4) - h - c mod 4) mod 7"
  define m where "m = (a + 11 * h + 22 * l) div 451"
  define t where "t = h + l - 7 * m + 114"
  have unf: "calcular_domingo_pascua anio = mk_date anio (t div 31) (t mod 31 + 1)"
    unfolding calcular_domingo_pascua_def Let_def t_def m_def l_def h_def c_def b_def a_def ..
  have r: "0 \<le> a" "a \<le> 18" "0 \<le> h" "h \<le> 29" "0 \<le> l" "l \<le> 6"
    unfolding a_def h_def l_def
    using mod_range[of 19] mod_range[of 30] mod_range[of 7] by simp_all
  note md = pascua_month_day[OF r, folded m_def, folded t_def]
  show thesis using that[OF unf md] .
qed

lemma pascua_ok:
  assumes "1 \<le> anio" "anio \<le> 9999"
  obtains f where "calcular_domingo_pascua anio = Inr f" "valid_date f" "year f = anio"
    "month f = 3 \<or> month f = 4"
    "days_before_year anio + 81 \<le> toordinal f" "toordinal f \<le> days_before_year anio + 117"
proof -
  obtain t where unf: "calcular_domingo_pascua anio = mk_date anio (t div 31) (t mod 31 + 1)"
    and md: "(t div 31 = 3 \<and> 21 \<le> t mod 31 \<and> t mod 31 \<le> 30)
       \<or> (t div 31 = 4 \<and> 0 \<le> t mod 31 \<and> t mod 31 \<le> 25)"
    by (rule pascua_forma)
  define f where "f = \<lparr>year = anio, month = t div 31, day = t mod 31 + 1\<rparr>"
  from md show thesis
  proof
    assume A: "t div 31 = 3 \<and> 21 \<le> t mod 31 \<and> t mod 31 \<le> 30"
    have 1: "calcular_domingo_pascua anio = Inr f"
      using A assms unfolding unf f_def
      by (simp add: mk_date_def c_int_def MINYEAR_def MAXYEAR_def days_in_month_def
          DAYS_IN_MONTH_def)
    have 2: "valid_date f" using 1 unfolding unf by (rule mk_date_Inr(2))
    have 3: "days_before_year anio + 81 \<le> toordinal f" "toordinal f \<le> days_before_year anio + 117"
      using A by (simp_all add: f_def toordinal_def ymd2ord_def days_before_month_def
          DAYS_BEFORE_MONTH_def)
    show thesis using that[OF 1 2 _ _ 3] A by (simp add: f_def)
  next
    assume A: "t div 31 = 4 \<and> 0 \<le> t mod 31 \<and> t mod 31 \<le> 25"
    have 1: "calcular_domingo_pascua anio = Inr f"
      using A assms unfolding unf f_def
      by (simp add: mk_date_def c_int_def MINYEAR_def MAXYEAR_def days_in_month_def
          DAYS_IN_MONTH_def)
    have 2: "valid_date f" using 1 unfolding unf by (rule mk_date_Inr(2))
    have 3: "days_before_year anio + 81 \<le> toordinal f" "toordinal f \<le> days_before_year anio + 117"
      using A by (simp_all add: f_def toordinal_def ymd2ord_def days_before_month_def
          DAYS_BEFORE_MONTH_def)
    show thesis using that[OF 1 2 _ _ 3] A by (simp add: f_def)
  qed
qed

lemma pascua_error:
  assumes "\<not> (1 \<le> anio \<and> anio \<le> 9999)"
  shows "calcular_domingo_pascua anio = Inl (if c_int anio then ValueError else OverflowError)"
proof -
  obtain t where unf: "calcular_domingo_pascua anio = mk_date anio (t div 31) (t mod 31 + 1)"
    and md: "(t div 31 = 3 \<and> 21 \<le> t mod 31 \<and> t mod 31 \<le> 30)
       \<or> (t div 31 = 4 \<and> 0 \<le> t mod 31 \<and> t mod 31 \<le> 25)"
    by (rule pascua_forma)
  have "c_int (t div 31)" "c_int (t mod 31 + 1)" using md by (auto simp: c_int_def)
  with assms show ?thesis unfolding unf by (rule mk_date_year_error)
qed

subsection \<open>The Monday rule\<close>

lemma weekday_date_add:
  assumes "date_add f k = Inr g"
  shows "weekday g = (weekday f + k) mod 7"
proof -
  have "toordinal g = toordinal f + k" using assms by (rule date_add_Inr(1))
  then have "weekday g = (toordinal f + 6 + k) mod 7" by (simp add: weekday_def algebra_simps)
  also have "\<dots> = ((toordinal f + 6) mod 7 + k) mod 7" by (simp add: mod_add_left_eq)
  finally show ?thesis by (simp add: weekday_def)
qed

lemma date_add_in_range:
  assumes "0 < toordinal f + k" "toordinal f + k \<le> MAXORDINAL"
  obtains g where "date_add f k = Inr g" "valid_date g" "toordinal g = toordinal f + k"
proof -
  have e: "date_add f k = Inr (ord2ymd (toordinal f + k))"
    using assms by (simp add: date_add_def Let_def)
  from date_add_Inr(1,2)[OF e] e that show thesis by blast
qed

lemma shift_amount:
  assumes "weekday f \<noteq> 0"
  shows "guarda_cero (dias_hasta_lunes (weekday f)) = 7 - weekday f"
    "1 \<le> 7 - weekday f" "7 - weekday f \<le> 6"
proof -
  have r: "0 \<le> weekday f" "weekday f < 7" by (rule weekday_range)+
  then have w: "0 \<le> 7 - weekday f" "7 - weekday f < 7" using assms by simp_all
  have e: "(7 - weekday f) mod 7 = 7 - weekday f" using w by (rule mod_pos_pos_trivial)
  show "guarda_cero (dias_hasta_lunes (weekday f)) = 7 - weekday f"
    unfolding dias_hasta_lunes_def guarda_cero_def e using assms r by simp
  show "1 \<le> 7 - weekday f" "7 - weekday f \<le> 6" using assms r by simp_all
qed

lemma trasladar_ok:
  assumes "valid_date f" "toordinal f + 6 \<le> days_before_year (year f + 1)"
  obtains g where "trasladar_a_lunes f = Inr g" "valid_date g" "year g = year f"
    "regla_lunes f g"
proof (cases "weekday f = 0")
  case True
  then have "trasladar_a_lunes f = Inr f" by (simp add: trasladar_a_lunes_def)
  moreover have "regla_lunes f f" using True by (simp add: regla_lunes_def)
  ultimately show thesis using that assms(1) by blast
next
  case False
  note sa = shift_amount[OF False]
  have e: "trasladar_a_lunes f = date_add f (7 - weekday f)"
    using False by (simp add: trasladar_a_lunes_def sa(1))
  note tr = toordinal_range[OF assms(1)]
  have "year f + 1 \<le> 10000" using assms(1) by (simp add: valid_date_def MAXYEAR_def)
  then have "days_before_year (year f + 1) \<le> days_before_year 10000" by (rule dby_mono)
  also have "\<dots> = MAXORDINAL" by (simp add: days_before_year_def MAXORDINAL_def)
  finally have hi: "days_before_year (year f + 1) \<le> MAXORDINAL" .
  have "0 < toordinal f + (7 - weekday f)" "toordinal f + (7 - weekday f) \<le> MAXORDINAL"
    using tr(1) sa(2,3) assms(2) hi by linarith+
  then obtain g where g: "date_add f (7 - weekday f) = Inr g" "valid_date g"
    "toordinal g = toordinal f + (7 - weekday f)" by (rule date_add_in_range)
  have "weekday g = (weekday f + (7 - weekday f)) mod 7" using g(1) by (rule weekday_date_add)
  then have w: "weekday g = 0" by simp
  have y: "year g = year f"
    using g(2) by (rule year_of_ordinal) (use g(3) tr(3) sa(2,3) assms(2) in linarith)+
  have "regla_lunes f g" using False w g(3) sa(2,3) by (simp add: regla_lunes_def)
  then show thesis using that e g(1,2) y by simp
qed

subsection \<open>The holidays of a year\<close>

lemma mapE_all:
  assumes "\<And>x. x \<in> set xs \<Longrightarrow> \<exists>y. f x = Inr y \<and> Q x y"
  shows "\<exists>ys. mapE f xs = Inr ys \<and> list_all2 Q xs ys"
  using assms
proof (induction xs)
  case Nil
  then show ?case by simp
next
  case (Cons x xs)
  obtain y where y: "f x = Inr y" "Q x y" using Cons.prems by auto
  obtain ys where ys: "mapE f xs = Inr ys" "list_all2 Q xs ys" using Cons by auto
  show ?case using y ys by simp
qed

lemma festivos_fijos_ok:
  assumes "1 \<le> anio" "anio \<le> 9999"
  shows "festivos_fijos anio =
    Inr [\<lparr>year = anio, month = 1, day = 1\<rparr>, \<lparr>year = anio, month = 5, day = 1\<rparr>,
         \<lparr>year = anio, month = 7, day = 20\<rparr>, \<lparr>year = anio, month = 8, day = 7\<rparr>,
         \<lparr>year = anio, month = 12, day = 8\<rparr>, \<lparr>year = anio, month = 12, day = 25\<rparr>]"
  using assms
  by (simp add: festivos_fijos_def FESTIVOS_FIJOS_def mk_date_def c_int_def MINYEAR_def
      MAXYEAR_def days_in_month_def DAYS_IN_MONTH_def)

lemma festivos_fijos_error:
  assumes "\<not> (1 \<le> anio \<and> anio \<le> 9999)"
  shows "festivos_fijos anio = Inl (if c_int anio then ValueError else OverflowError)"
proof -
  have "c_int 1" by (simp add: c_int_def)
  from mk_date_year_error[OF assms this this] show ?thesis
    by (simp add: festivos_fijos_def FESTIVOS_FIJOS_def)
qed

lemma fijos_en_anio:
  assumes "1 \<le> anio" "anio \<le> 9999" "festivos_fijos anio = Inr fs"
  shows "length fs = 6" "list_all (en_anio anio) fs"
  using assms(3) unfolding festivos_fijos_ok[OF assms(1,2)] using assms(1,2)
  by (auto simp: en_anio_def valid_date_def MINYEAR_def MAXYEAR_def days_in_month_def
      DAYS_IN_MONTH_def)

lemma trasladable_ok:
  assumes "1 \<le> anio" "anio \<le> 9999" "(mes, dia) \<in> set FESTIVOS_TRASLADABLES"
  shows "\<exists>g. bindE (mk_date anio mes dia) trasladar_a_lunes = Inr g
             \<and> (en_anio anio g \<and> regla_lunes \<lparr>year = anio, month = mes, day = dia\<rparr> g)"
proof -
  define f where "f = \<lparr>year = anio, month = mes, day = dia\<rparr>"
  have m: "mk_date anio mes dia = Inr f" and v: "valid_date f"
    and o: "toordinal f \<le> days_before_year anio + 317"
    using assms unfolding f_def
    by (auto simp: FESTIVOS_TRASLADABLES_def mk_date_def c_int_def valid_date_def MINYEAR_def
        MAXYEAR_def
        days_in_month_def DAYS_IN_MONTH_def toordinal_def ymd2ord_def days_before_month_def
        DAYS_BEFORE_MONTH_def)
  have "toordinal f + 6 \<le> days_before_year (year f + 1)"
    using o by (simp add: f_def dby_step)
  with v obtain g where g: "trasladar_a_lunes f = Inr g" "valid_date g" "year g = year f"
    "regla_lunes f g" by (rule trasladar_ok)
  show ?thesis using m g by (simp add: bindE_def en_anio_def f_def)
qed

lemma festivos_trasladables_ok:
  assumes "1 \<le> anio" "anio \<le> 9999"
  shows "\<exists>ts. festivos_trasladables anio = Inr ts
    \<and> list_all2 (\<lambda>(mes, dia) g. en_anio anio g
          \<and> regla_lunes \<lparr>year = anio, month = mes, day = dia\<rparr> g) FESTIVOS_TRASLADABLES ts"
  unfolding festivos_trasladables_def
  by (rule mapE_all) (use trasladable_ok[OF assms] in auto)

lemma dby_year_end:
  assumes "y \<le> 9999"
  shows "days_before_year y + 365 \<le> days_before_year (y + 1)"
    "days_before_year (y + 1) \<le> MAXORDINAL"
proof -
  show "days_before_year y + 365 \<le> days_before_year (y + 1)" by (simp add: dby_step)
  have "days_before_year (y + 1) \<le> days_before_year 10000" using assms by (intro dby_mono) simp
  also have "\<dots> = MAXORDINAL" by (simp add: days_before_year_def MAXORDINAL_def)
  finally show "days_before_year (y + 1) \<le> MAXORDINAL" .
qed

lemma dby_nonneg:
  assumes "1 \<le> y"
  shows "0 \<le> days_before_year y"
proof -
  have "days_before_year 1 \<le> days_before_year y" using assms by (rule dby_mono)
  then show ?thesis by (simp add: days_before_year_def)
qed

lemma pascua_relativa:
  assumes "1 \<le> anio" "anio \<le> 9999"
    "days_before_year anio + 81 \<le> toordinal dp" "toordinal dp \<le> days_before_year anio + 117"
    "- 3 \<le> k" "k \<le> 68"
  obtains g where "date_add dp k = Inr g" "en_anio anio g"
    "toordinal g + 6 \<le> days_before_year (year g + 1)"
proof -
  note ye = dby_year_end[OF assms(2)]
  note nn = dby_nonneg[OF assms(1)]
  have "0 < toordinal dp + k" "toordinal dp + k \<le> MAXORDINAL"
    using assms(3-6) ye nn by linarith+
  then obtain g where g: "date_add dp k = Inr g" "valid_date g" "toordinal g = toordinal dp + k"
    by (rule date_add_in_range)
  have y: "year g = anio"
    using g(2) by (rule year_of_ordinal) (use g(3) assms(3-6) ye in linarith)+
  have "toordinal g + 6 \<le> days_before_year (year g + 1)"
    unfolding y using g(3) assms(4,6) ye by linarith
  then show thesis using that g(1,2) y by (simp add: en_anio_def)
qed

lemma festivos_pascua_ok:
  assumes "1 \<le> anio" "anio \<le> 9999"
  obtains dp js vs a0 asc c0 cc s0 sc where
    "calcular_domingo_pascua anio = Inr dp"
    "date_add dp (- 3) = Inr js" "date_add dp (- 2) = Inr vs"
    "date_add dp 39 = Inr a0" "trasladar_a_lunes a0 = Inr asc" "regla_lunes a0 asc"
    "date_add dp 60 = Inr c0" "trasladar_a_lunes c0 = Inr cc" "regla_lunes c0 cc"
    "date_add dp 68 = Inr s0" "trasladar_a_lunes s0 = Inr sc" "regla_lunes s0 sc"
    "festivos_pascua anio = Inr [js, vs, asc, cc, sc]"
    "list_all (en_anio anio) [js, vs, asc, cc, sc]"
proof -
  obtain dp where dp: "calcular_domingo_pascua anio = Inr dp"
    "days_before_year anio + 81 \<le> toordinal dp" "toordinal dp \<le> days_before_year anio + 117"
    using pascua_ok[OF assms] by metis
  note rel = pascua_relativa[OF assms dp(2,3)]
  obtain js where js: "date_add dp (- 3) = Inr js" "en_anio anio js" by (rule rel[of "- 3"]) simp_all
  obtain vs where vs: "date_add dp (- 2) = Inr vs" "en_anio anio vs" by (rule rel[of "- 2"]) simp_all
  obtain a0 where a0: "date_add dp 39 = Inr a0" "en_anio anio a0"
    "toordinal a0 + 6 \<le> days_before_year (year a0 + 1)" by (rule rel[of 39]) simp_all
  obtain c0 where c0: "date_add dp 60 = Inr c0" "en_anio anio c0"
    "toordinal c0 + 6 \<le> days_before_year (year c0 + 1)" by (rule rel[of 60]) simp_all
  obtain s0 where s0: "date_add dp 68 = Inr s0" "en_anio anio s0"
    "toordinal s0 + 6 \<le> days_before_year (year s0 + 1)" by (rule rel[of 68]) simp_all
  obtain asc where asc: "trasladar_a_lunes a0 = Inr asc" "valid_date asc" "year asc = year a0"
    "regla_lunes a0 asc" using trasladar_ok[OF _ a0(3)] a0(2) unfolding en_anio_def by metis
  obtain cc where cc: "trasladar_a_lunes c0 = Inr cc" "valid_date cc" "year cc = year c0"
    "regla_lunes c0 cc" using trasladar_ok[OF _ c0(3)] c0(2) unfolding en_anio_def by metis
  obtain sc where sc: "trasladar_a_lunes s0 = Inr sc" "valid_date sc" "year sc = year s0"
    "regla_lunes s0 sc" using trasladar_ok[OF _ s0(3)] s0(2) unfolding en_anio_def by metis
  have l: "festivos_pascua anio = Inr [js, vs, asc, cc, sc]"
    by (simp add: festivos_pascua_def bindE_def dp(1) js(1) vs(1) a0(1) c0(1) s0(1)
        asc(1) cc(1) sc(1))
  have e: "list_all (en_anio anio) [js, vs, asc, cc, sc]"
    using js(2) vs(2) a0(2) c0(2) s0(2) asc(2,3) cc(2,3) sc(2,3) by (simp add: en_anio_def)
  show thesis
    using that[OF dp(1) js(1) vs(1) a0(1) asc(1,4) c0(1) cc(1,4) s0(1) sc(1,4) l e] .
qed

lemma festivos_pascua_error:
  assumes "\<not> (1 \<le> anio \<and> anio \<le> 9999)"
  shows "festivos_pascua anio = Inl (if c_int anio then ValueError else OverflowError)"
  by (simp add: festivos_pascua_def bindE_def pascua_error[OF assms])

lemma obtener_festivos_ok:
  assumes "1 \<le> anio" "anio \<le> 9999"
  obtains fijos tras pasc where
    "festivos_fijos anio = Inr fijos" "festivos_trasladables anio = Inr tras"
    "festivos_pascua anio = Inr pasc"
    "length fijos = 6" "length tras = 7" "length pasc = 5"
    "festivos_sin_ordenar anio = Inr (fijos @ tras @ pasc)"
    "obtener_festivos_anio anio = Inr (sort_key date_key (fijos @ tras @ pasc))"
    "list_all (en_anio anio) (fijos @ tras @ pasc)"
proof -
  obtain fijos where f: "festivos_fijos anio = Inr fijos"
    using festivos_fijos_ok[OF assms] by simp
  note fl = fijos_en_anio[OF assms f]
  obtain tras where t: "festivos_trasladables anio = Inr tras"
    and t2: "list_all2 (\<lambda>(mes, dia) g. en_anio anio g
          \<and> regla_lunes \<lparr>year = anio, month = mes, day = dia\<rparr> g) FESTIVOS_TRASLADABLES tras"
    using festivos_trasladables_ok[OF assms] by blast
  have tl: "length tras = 7" using list_all2_lengthD[OF t2] by (simp add: FESTIVOS_TRASLADABLES_def)
  have te: "list_all (en_anio anio) tras"
    unfolding list_all_length
  proof (intro allI impI)
    fix n assume "n < length tras"
    then show "en_anio anio (tras ! n)"
      using list_all2_nthD2[OF t2, of n] by (auto split: prod.splits)
  qed
  obtain js vs asc cc sc where p0: "festivos_pascua anio = Inr [js, vs, asc, cc, sc]"
    "list_all (en_anio anio) [js, vs, asc, cc, sc]"
    using festivos_pascua_ok[OF assms] by metis
  define pasc where "pasc = [js, vs, asc, cc, sc]"
  have p: "festivos_pascua anio = Inr pasc" "length pasc = 5" "list_all (en_anio anio) pasc"
    using p0 by (simp_all add: pasc_def)
  have s: "festivos_sin_ordenar anio = Inr (fijos @ tras @ pasc)"
    by (simp add: festivos_sin_ordenar_def bindE_def f t p(1))
  have o: "obtener_festivos_anio anio = Inr (sort_key date_key (fijos @ tras @ pasc))"
    by (simp add: obtener_festivos_anio_def bindE_def s)
  have e: "list_all (en_anio anio) (fijos @ tras @ pasc)" using fl(2) te p(3) by simp
  show thesis using that[OF f t p(1) fl(1) tl p(2) s o e] .
qed

lemma obtener_festivos_error:
  assumes "\<not> (1 \<le> anio \<and> anio \<le> 9999)"
  shows "obtener_festivos_anio anio = Inl (if c_int anio then ValueError else OverflowError)"
  by (simp add: obtener_festivos_anio_def festivos_sin_ordenar_def bindE_def
      festivos_fijos_error[OF assms])

lemma es_festivo_total:
  assumes "valid_date f"
  obtains b where "es_festivo f = Inr b"
proof -
  have "1 \<le> year f" "year f \<le> 9999" using assms by (simp_all add: valid_date_def MINYEAR_def MAXYEAR_def)
  then obtain fs where "obtener_festivos_anio (year f) = Inr fs"
    using obtener_festivos_ok by metis
  then have "es_festivo f = Inr (f \<in> set fs)" by (simp add: es_festivo_def bindE_def)
  then show thesis using that by blast
qed

subsection \<open>The forward scan\<close>

lemma date_max_facts:
  "valid_date date_max" "toordinal date_max = MAXORDINAL" "dia_habil date_max"
  by (code_simp)+

lemma before_max:
  assumes "valid_date f" "f \<noteq> date_max"
  shows "toordinal f < MAXORDINAL"
proof -
  have "toordinal f \<noteq> toordinal date_max"
    using toordinal_inj[OF assms(1) date_max_facts(1)] assms(2) by blast
  then show ?thesis using toordinal_range(2)[OF assms(1)] date_max_facts(2) by simp
qed

lemma siguiente_ok:
  assumes "valid_date f" "toordinal f < MAXORDINAL"
  shows "\<exists>g. obtener_siguiente_dia_habil f = Inr g \<and> valid_date g
             \<and> toordinal f < toordinal g \<and> dia_habil g
             \<and> (\<forall>x. valid_date x \<and> toordinal f < toordinal x \<and> toordinal x < toordinal g
                    \<longrightarrow> \<not> dia_habil x)"
  using assms
proof (induction f rule: obtener_siguiente_dia_habil.induct)
  case (1 fecha)
  have "0 < toordinal fecha + 1" "toordinal fecha + 1 \<le> MAXORDINAL"
    using toordinal_range(1)[OF "1.prems"(1)] "1.prems"(2) by simp_all
  then obtain s where s: "date_add fecha 1 = Inr s" "valid_date s"
    "toordinal s = toordinal fecha + 1" by (rule date_add_in_range)
  obtain b where b: "es_festivo s = Inr b" using s(2) by (rule es_festivo_total)
  show ?case
  proof (cases "dia_habil s")
    case True
    then have "obtener_siguiente_dia_habil fecha = Inr s"
      using s(1) by (subst obtener_siguiente_dia_habil.simps) (simp add: dia_habil_def)
    then show ?thesis using True s(2,3) by auto
  next
    case False
    have ne: "s \<noteq> date_max" using False date_max_facts(3) by auto
    have lt: "toordinal s < MAXORDINAL" using s(2) ne by (rule before_max)
    have ih: "\<exists>g. obtener_siguiente_dia_habil s = Inr g \<and> valid_date g
             \<and> toordinal s < toordinal g \<and> dia_habil g
             \<and> (\<forall>x. valid_date x \<and> toordinal s < toordinal x \<and> toordinal x < toordinal g
                    \<longrightarrow> \<not> dia_habil x)"
    proof (cases "weekday s < 5")
      case True
      then have "b" using False b by (simp add: dia_habil_def)
      then have "\<not> \<not> b" by simp
      from "1.IH"(1)[OF s(1) True b this s(2) lt] show ?thesis .
    next
      case F: False
      from "1.IH"(2)[OF s(1) F s(2) lt] show ?thesis .
    qed
    have e: "obtener_siguiente_dia_habil fecha = obtener_siguiente_dia_habil s"
      using s(1) b False
      by (subst obtener_siguiente_dia_habil.simps) (auto simp: dia_habil_def)
    from ih obtain g where g: "obtener_siguiente_dia_habil s = Inr g" "valid_date g"
      "toordinal s < toordinal g" "dia_habil g"
      "\<forall>x. valid_date x \<and> toordinal s < toordinal x \<and> toordinal x < toordinal g
             \<longrightarrow> \<not> dia_habil x" by blast
    have m: "\<not> dia_habil x"
      if x: "valid_date x" "toordinal fecha < toordinal x" "toordinal x < toordinal g" for x
    proof (cases "toordinal x = toordinal s")
      case True
      then have "x = s" using toordinal_inj[OF x(1) s(2)] by simp
      then show ?thesis using False by simp
    next
      case F: False
      then have "toordinal s < toordinal x" using x(2) s(3) by simp
      then show ?thesis using g(5) x(1,3) by blast
    qed
    show ?thesis using e g(1,2,3,4) s(3) m by auto
  qed
qed

lemma siguiente_primer_habil:
  assumes "valid_date f" "f \<noteq> date_max"
  obtains g where "obtener_siguiente_dia_habil f = Inr g" "primer_habil_despues f g"
proof -
  from siguiente_ok[OF assms(1) before_max[OF assms]]
  obtain g where g: "obtener_siguiente_dia_habil f = Inr g" "valid_date g"
      "toordinal f < toordinal g" "dia_habil g"
      "\<forall>x. valid_date x \<and> toordinal f < toordinal x \<and> toordinal x < toordinal g
             \<longrightarrow> \<not> dia_habil x" by blast
  have "date_less f g" using g(3) by (simp add: date_less_iff[OF assms(1) g(2)])
  moreover have "\<not> dia_habil x" if "valid_date x" "date_less f x" "date_less x g" for x
    using that g(5) date_less_iff[OF assms(1) that(1)] date_less_iff[OF that(1) g(2)] by blast
  ultimately have "primer_habil_despues f g"
    using g(2,4) unfolding primer_habil_despues_def by blast
  then show thesis using that g(1) by blast
qed

lemma ajustar_habil:
  assumes "dia_habil f"
  shows "ajustar_dia_rondas f = Inr (f, False)"
  using assms by (simp add: ajustar_dia_rondas_def bindE_def dia_habil_def)

lemma ajustar_no_habil:
  assumes "valid_date f" "\<not> dia_habil f"
  obtains g where "ajustar_dia_rondas f = Inr (g, True)" "primer_habil_despues f g"
    "es_festivo f = Inr True \<or> 5 \<le> weekday f"
proof -
  obtain b where b: "es_festivo f = Inr b" using assms(1) by (rule es_festivo_total)
  have c: "b \<or> 5 \<le> weekday f" using assms(2) b by (auto simp: dia_habil_def)
  have "f \<noteq> date_max" using assms(2) date_max_facts(3) by auto
  with assms(1) obtain g where g: "obtener_siguiente_dia_habil f = Inr g"
    "primer_habil_despues f g" by (rule siguiente_primer_habil)
  have "ajustar_dia_rondas f = Inr (g, True)"
    using b c g(1) by (auto simp: ajustar_dia_rondas_def bindE_def)
  moreover have "es_festivo f = Inr True \<or> 5 \<le> weekday f" using b c by auto
  ultimately show thesis using that g(2) by blast
qed

section \<open>The claims\<close>

text \<open>
  A date of the program is a value that the constructor accepts (\<open>valid_date\<close>); the
  claims about every date are stated for these. A claim that fails on the code is
  followed by the statement that holds and by an evaluation of the code where the claim
  fails.
\<close>

text \<open>
  C1. For every date, \<^verbatim>\<open>ajustar_dia_rondas\<close> returns a date and a flag; the date is the
  requested one when the flag is false and a later one when it is true, and in both cases
  it is a business day: its weekday is 0 to 4 (Monday to Friday) and it is not in the
  holiday list of its own year.
\<close>

theorem ajustar_dia_habil:
  assumes "valid_date f"
  shows "\<exists>g aj. ajustar_dia_rondas f = Inr (g, aj)
           \<and> (if aj then date_less f g else g = f)
           \<and> valid_date g \<and> 0 \<le> weekday g \<and> weekday g \<le> 4 \<and> es_festivo g = Inr False"
proof (cases "dia_habil f")
  case True
  then have "ajustar_dia_rondas f = Inr (f, False)" by (rule ajustar_habil)
  moreover have "0 \<le> weekday f" "weekday f \<le> 4" "es_festivo f = Inr False"
    using True weekday_range(1)[of f] by (simp_all add: dia_habil_def)
  ultimately show ?thesis using assms by auto
next
  case False
  with assms obtain g where g: "ajustar_dia_rondas f = Inr (g, True)" "primer_habil_despues f g"
    by (rule ajustar_no_habil)
  have "valid_date g" "date_less f g" "0 \<le> weekday g" "weekday g \<le> 4" "es_festivo g = Inr False"
    using g(2) weekday_range(1)[of g] by (simp_all add: primer_habil_despues_def dia_habil_def)
  then show ?thesis using g(1) by auto
qed

theorem ajustar_dia_habil_witness:
  "valid_date \<lparr>year = 2025, month = 6, day = 28\<rparr>
   \<and> ajustar_dia_rondas \<lparr>year = 2025, month = 6, day = 28\<rparr>
       = Inr (\<lparr>year = 2025, month = 7, day = 1\<rparr>, True)
   \<and> date_less \<lparr>year = 2025, month = 6, day = 28\<rparr> \<lparr>year = 2025, month = 7, day = 1\<rparr>
   \<and> weekday \<lparr>year = 2025, month = 7, day = 1\<rparr> = 1
   \<and> es_festivo \<lparr>year = 2025, month = 7, day = 1\<rparr> = Inr False"
proof -
  have v: "valid_date \<lparr>year = 2025, month = 6, day = 28\<rparr>" by code_simp
  have a: "ajustar_dia_rondas \<lparr>year = 2025, month = 6, day = 28\<rparr>
       = Inr (\<lparr>year = 2025, month = 7, day = 1\<rparr>, True)" by code_simp
  have w: "weekday \<lparr>year = 2025, month = 7, day = 1\<rparr> = 1" by code_simp
  from ajustar_dia_habil[OF v] a w v show ?thesis by auto
qed

text \<open>
  C2. The flag returned by \<^verbatim>\<open>ajustar_dia_rondas\<close> is true exactly when the requested date
  is a holiday or falls on Saturday (5) or Sunday (6).
\<close>

theorem ajustado_sii_festivo_o_fin_de_semana:
  assumes "valid_date f"
  shows "\<exists>g aj. ajustar_dia_rondas f = Inr (g, aj)
           \<and> aj = (es_festivo f = Inr True \<or> weekday f = 5 \<or> weekday f = 6)"
proof (cases "dia_habil f")
  case True
  then have "ajustar_dia_rondas f = Inr (f, False)" by (rule ajustar_habil)
  moreover have "\<not> (es_festivo f = Inr True \<or> weekday f = 5 \<or> weekday f = 6)"
    using True by (auto simp: dia_habil_def)
  ultimately show ?thesis by auto
next
  case False
  with assms obtain g where g: "ajustar_dia_rondas f = Inr (g, True)"
    "es_festivo f = Inr True \<or> 5 \<le> weekday f" by (rule ajustar_no_habil)
  have "5 \<le> weekday f \<Longrightarrow> weekday f = 5 \<or> weekday f = 6"
    using weekday_range(3)[of f] by linarith
  then have "es_festivo f = Inr True \<or> weekday f = 5 \<or> weekday f = 6" using g(2) by blast
  then show ?thesis using g(1) by auto
qed

theorem ajustado_sii_festivo_o_fin_de_semana_witness:
  "ajustar_dia_rondas \<lparr>year = 2025, month = 4, day = 18\<rparr>
       = Inr (\<lparr>year = 2025, month = 4, day = 21\<rparr>, True)
   \<and> es_festivo \<lparr>year = 2025, month = 4, day = 18\<rparr> = Inr True
   \<and> weekday \<lparr>year = 2025, month = 4, day = 18\<rparr> = 4
   \<and> ajustar_dia_rondas \<lparr>year = 2025, month = 4, day = 22\<rparr>
       = Inr (\<lparr>year = 2025, month = 4, day = 22\<rparr>, False)
   \<and> es_festivo \<lparr>year = 2025, month = 4, day = 22\<rparr> = Inr False
   \<and> weekday \<lparr>year = 2025, month = 4, day = 22\<rparr> = 1"
proof -
  have v: "valid_date \<lparr>year = 2025, month = 4, day = 18\<rparr>"
    "valid_date \<lparr>year = 2025, month = 4, day = 22\<rparr>" by code_simp+
  have e: "es_festivo \<lparr>year = 2025, month = 4, day = 18\<rparr> = Inr True"
    "weekday \<lparr>year = 2025, month = 4, day = 18\<rparr> = 4"
    "es_festivo \<lparr>year = 2025, month = 4, day = 22\<rparr> = Inr False"
    "weekday \<lparr>year = 2025, month = 4, day = 22\<rparr> = 1"
    "ajustar_dia_rondas \<lparr>year = 2025, month = 4, day = 18\<rparr>
       = Inr (\<lparr>year = 2025, month = 4, day = 21\<rparr>, True)"
    "ajustar_dia_rondas \<lparr>year = 2025, month = 4, day = 22\<rparr>
       = Inr (\<lparr>year = 2025, month = 4, day = 22\<rparr>, False)" by code_simp+
  from ajustado_sii_festivo_o_fin_de_semana[OF v(1)] ajustado_sii_festivo_o_fin_de_semana[OF v(2)] e
  show ?thesis by simp
qed




text \<open>
  C4. Every date that \<^verbatim>\<open>obtener_festivos_a\~no\<close> produces under the Monday rule (the 7
  movable table dates, and Ascension, Corpus Christi and Sacred Heart at Easter + 39,
  + 60 and + 68) is a Monday; an original date that is a Monday is kept, and any other is
  moved forward by 1 to 6 days. The rule is applied to the date already offset from
  Easter. The list returned is the sorted list of the fixed dates, these observed dates
  and Holy Thursday and Good Friday.
\<close>

theorem regla_lunes_festivos:
  assumes "1 \<le> anio" "anio \<le> 9999"
  shows "\<exists>fijos ts dp a0 c0 s0 js vs asc cc sc.
           festivos_fijos anio = Inr fijos
         \<and> festivos_trasladables anio = Inr ts
         \<and> list_all2 (\<lambda>(mes, dia) g. regla_lunes \<lparr>year = anio, month = mes, day = dia\<rparr> g)
              FESTIVOS_TRASLADABLES ts
         \<and> calcular_domingo_pascua anio = Inr dp
         \<and> date_add dp 39 = Inr a0 \<and> date_add dp 60 = Inr c0 \<and> date_add dp 68 = Inr s0
         \<and> festivos_pascua anio = Inr [js, vs, asc, cc, sc]
         \<and> regla_lunes a0 asc \<and> regla_lunes c0 cc \<and> regla_lunes s0 sc
         \<and> obtener_festivos_anio anio
             = Inr (sort_key date_key (fijos @ ts @ [js, vs, asc, cc, sc]))"
proof -
  obtain ts where t: "festivos_trasladables anio = Inr ts"
    and t2: "list_all2 (\<lambda>(mes, dia) g. en_anio anio g
          \<and> regla_lunes \<lparr>year = anio, month = mes, day = dia\<rparr> g) FESTIVOS_TRASLADABLES ts"
    using festivos_trasladables_ok[OF assms] by blast
  have t3: "list_all2 (\<lambda>(mes, dia) g. regla_lunes \<lparr>year = anio, month = mes, day = dia\<rparr> g)
              FESTIVOS_TRASLADABLES ts"
    using t2 by (rule list_all2_mono) auto
  obtain dp js vs a0 asc c0 cc s0 sc where p:
    "calcular_domingo_pascua anio = Inr dp"
    "date_add dp 39 = Inr a0" "regla_lunes a0 asc"
    "date_add dp 60 = Inr c0" "regla_lunes c0 cc"
    "date_add dp 68 = Inr s0" "regla_lunes s0 sc"
    "festivos_pascua anio = Inr [js, vs, asc, cc, sc]"
    using festivos_pascua_ok[OF assms] by metis
  obtain fijos tras pasc where o: "festivos_fijos anio = Inr fijos"
    "festivos_trasladables anio = Inr tras" "festivos_pascua anio = Inr pasc"
    "obtener_festivos_anio anio = Inr (sort_key date_key (fijos @ tras @ pasc))"
    using obtener_festivos_ok[OF assms] by metis
  have "tras = ts" "pasc = [js, vs, asc, cc, sc]" using o(2,3) t p(8) by simp_all
  then have l: "obtener_festivos_anio anio
             = Inr (sort_key date_key (fijos @ ts @ [js, vs, asc, cc, sc]))"
    using o(4) by simp
  show ?thesis using o(1) t t3 p l by blast
qed

theorem regla_lunes_festivos_witness:
  "(\<exists>fijos ts dp a0 c0 s0 js vs asc cc sc.
           festivos_fijos 2025 = Inr fijos
         \<and> festivos_trasladables 2025 = Inr ts
         \<and> list_all2 (\<lambda>(mes, dia) g. regla_lunes \<lparr>year = 2025, month = mes, day = dia\<rparr> g)
              FESTIVOS_TRASLADABLES ts
         \<and> calcular_domingo_pascua 2025 = Inr dp
         \<and> date_add dp 39 = Inr a0 \<and> date_add dp 60 = Inr c0 \<and> date_add dp 68 = Inr s0
         \<and> festivos_pascua 2025 = Inr [js, vs, asc, cc, sc]
         \<and> regla_lunes a0 asc \<and> regla_lunes c0 cc \<and> regla_lunes s0 sc
         \<and> obtener_festivos_anio 2025
             = Inr (sort_key date_key (fijos @ ts @ [js, vs, asc, cc, sc])))
   \<and> regla_lunes \<lparr>year = 2025, month = 1, day = 6\<rparr> \<lparr>year = 2025, month = 1, day = 6\<rparr>
   \<and> regla_lunes \<lparr>year = 2025, month = 6, day = 29\<rparr> \<lparr>year = 2025, month = 6, day = 30\<rparr>
   \<and> regla_lunes \<lparr>year = 2025, month = 6, day = 27\<rparr> \<lparr>year = 2025, month = 6, day = 30\<rparr>
   \<and> obtener_festivos_anio 2025 =
     Inr [\<lparr>year = 2025, month = 1, day = 1\<rparr>, \<lparr>year = 2025, month = 1, day = 6\<rparr>,
          \<lparr>year = 2025, month = 3, day = 24\<rparr>, \<lparr>year = 2025, month = 4, day = 17\<rparr>,
          \<lparr>year = 2025, month = 4, day = 18\<rparr>, \<lparr>year = 2025, month = 5, day = 1\<rparr>,
          \<lparr>year = 2025, month = 6, day = 2\<rparr>, \<lparr>year = 2025, month = 6, day = 23\<rparr>,
          \<lparr>year = 2025, month = 6, day = 30\<rparr>, \<lparr>year = 2025, month = 6, day = 30\<rparr>,
          \<lparr>year = 2025, month = 7, day = 20\<rparr>, \<lparr>year = 2025, month = 8, day = 7\<rparr>,
          \<lparr>year = 2025, month = 8, day = 18\<rparr>, \<lparr>year = 2025, month = 10, day = 13\<rparr>,
          \<lparr>year = 2025, month = 11, day = 3\<rparr>, \<lparr>year = 2025, month = 11, day = 17\<rparr>,
          \<lparr>year = 2025, month = 12, day = 8\<rparr>, \<lparr>year = 2025, month = 12, day = 25\<rparr>]"
proof -
  have "regla_lunes \<lparr>year = 2025, month = 1, day = 6\<rparr> \<lparr>year = 2025, month = 1, day = 6\<rparr>"
    "regla_lunes \<lparr>year = 2025, month = 6, day = 29\<rparr> \<lparr>year = 2025, month = 6, day = 30\<rparr>"
    "regla_lunes \<lparr>year = 2025, month = 6, day = 27\<rparr> \<lparr>year = 2025, month = 6, day = 30\<rparr>"
    by code_simp+
  moreover have "obtener_festivos_anio 2025 =
     Inr [\<lparr>year = 2025, month = 1, day = 1\<rparr>, \<lparr>year = 2025, month = 1, day = 6\<rparr>,
          \<lparr>year = 2025, month = 3, day = 24\<rparr>, \<lparr>year = 2025, month = 4, day = 17\<rparr>,
          \<lparr>year = 2025, month = 4, day = 18\<rparr>, \<lparr>year = 2025, month = 5, day = 1\<rparr>,
          \<lparr>year = 2025, month = 6, day = 2\<rparr>, \<lparr>year = 2025, month = 6, day = 23\<rparr>,
          \<lparr>year = 2025, month = 6, day = 30\<rparr>, \<lparr>year = 2025, month = 6, day = 30\<rparr>,
          \<lparr>year = 2025, month = 7, day = 20\<rparr>, \<lparr>year = 2025, month = 8, day = 7\<rparr>,
          \<lparr>year = 2025, month = 8, day = 18\<rparr>, \<lparr>year = 2025, month = 10, day = 13\<rparr>,
          \<lparr>year = 2025, month = 11, day = 3\<rparr>, \<lparr>year = 2025, month = 11, day = 17\<rparr>,
          \<lparr>year = 2025, month = 12, day = 8\<rparr>, \<lparr>year = 2025, month = 12, day = 25\<rparr>]"
    by code_simp
  moreover have "(1::int) \<le> 2025" "(2025::int) \<le> 9999" by simp_all
  ultimately show ?thesis using regla_lunes_festivos[of 2025] by blast
qed

lemma pascua_1900_2100: "list_all pascua_en_domingo [1900..2100]"
  by code_simp

text \<open>
  C5. For every year from 1900 to 2100 \<^verbatim>\<open>calcular_domingo_pascua\<close> returns a date of that
  year, in March or April, that is a Sunday; for 2025 it is April 20.
\<close>

theorem pascua_domingo:
  assumes "1900 \<le> anio" "anio \<le> 2100"
  shows "(\<exists>f. calcular_domingo_pascua anio = Inr f \<and> year f = anio
              \<and> (month f = 3 \<or> month f = 4) \<and> weekday f = 6)
         \<and> calcular_domingo_pascua 2025 = Inr \<lparr>year = 2025, month = 4, day = 20\<rparr>"
proof -
  have "anio \<in> {1900..2100}" using assms by (intro iffD2[OF atLeastAtMost_iff] conjI)
  then have "anio \<in> set [1900..2100]" by (simp only: set_upto)
  then have "pascua_en_domingo anio" using pascua_1900_2100 unfolding list_all_iff by blast
  then have "\<exists>f. calcular_domingo_pascua anio = Inr f \<and> year f = anio
              \<and> (month f = 3 \<or> month f = 4) \<and> weekday f = 6"
    by (auto simp: pascua_en_domingo_def split: sum.splits)
  moreover have "calcular_domingo_pascua 2025 = Inr \<lparr>year = 2025, month = 4, day = 20\<rparr>"
    by code_simp
  ultimately show ?thesis by blast
qed

theorem pascua_domingo_witness:
  "calcular_domingo_pascua 2024 = Inr \<lparr>year = 2024, month = 3, day = 31\<rparr>
   \<and> weekday \<lparr>year = 2024, month = 3, day = 31\<rparr> = 6
   \<and> calcular_domingo_pascua 2025 = Inr \<lparr>year = 2025, month = 4, day = 20\<rparr>
   \<and> weekday \<lparr>year = 2025, month = 4, day = 20\<rparr> = 6"
proof -
  have "calcular_domingo_pascua 2024 = Inr \<lparr>year = 2024, month = 3, day = 31\<rparr>" by code_simp
  moreover have "calcular_domingo_pascua 2025 = Inr \<lparr>year = 2025, month = 4, day = 20\<rparr>" by code_simp
  ultimately show ?thesis using pascua_domingo[of 2024] pascua_domingo[of 2025] by auto
qed

text \<open>
  C6, as the code has it. The scan of \<^verbatim>\<open>obtener_siguiente_dia_habil\<close> always ends (the
  function is total: see its termination proof), and for every date but the last one,
  9999-12-31, it ends with the first business day after the date. From the last date the
  first addition of one day raises \<^verbatim>\<open>OverflowError\<close>, as the evaluation after the theorem
  shows.
\<close>

theorem siguiente_dia_habil_es_el_primero:
  assumes "valid_date f" "f \<noteq> date_max"
  shows "\<exists>g. obtener_siguiente_dia_habil f = Inr g \<and> primer_habil_despues f g"
  using siguiente_primer_habil[OF assms] by blast

theorem siguiente_dia_habil_es_el_primero_witness:
  "valid_date \<lparr>year = 2025, month = 4, day = 16\<rparr>
   \<and> obtener_siguiente_dia_habil \<lparr>year = 2025, month = 4, day = 16\<rparr>
       = Inr \<lparr>year = 2025, month = 4, day = 21\<rparr>
   \<and> primer_habil_despues \<lparr>year = 2025, month = 4, day = 16\<rparr> \<lparr>year = 2025, month = 4, day = 21\<rparr>"
proof -
  have v: "valid_date \<lparr>year = 2025, month = 4, day = 16\<rparr>" by code_simp
  have n: "\<lparr>year = 2025, month = 4, day = 16\<rparr> \<noteq> date_max" by (simp add: date_max_def)
  have e: "obtener_siguiente_dia_habil \<lparr>year = 2025, month = 4, day = 16\<rparr>
       = Inr \<lparr>year = 2025, month = 4, day = 21\<rparr>" by code_simp
  from siguiente_dia_habil_es_el_primero[OF v n] e v show ?thesis by auto
qed

text \<open>
  C6 as stated fails at the last date: 9999-12-31 is a date, and the scan from it ends
  with \<^verbatim>\<open>OverflowError\<close>, not with a date.
\<close>

theorem siguiente_desde_ultima_fecha:
  "valid_date \<lparr>year = 9999, month = 12, day = 31\<rparr>
   \<and> obtener_siguiente_dia_habil \<lparr>year = 9999, month = 12, day = 31\<rparr> = Inl OverflowError"
  by code_simp

text \<open>
  C7. Adjusting the date that \<^verbatim>\<open>ajustar_dia_rondas\<close> returned changes nothing: the flag is
  false and the date is the same.
\<close>

theorem ajustar_idempotente:
  assumes "valid_date f"
  shows "\<exists>g aj. ajustar_dia_rondas f = Inr (g, aj) \<and> ajustar_dia_rondas g = Inr (g, False)"
proof (cases "dia_habil f")
  case True
  then have "ajustar_dia_rondas f = Inr (f, False)" by (rule ajustar_habil)
  then show ?thesis by blast
next
  case False
  with assms obtain g where g: "ajustar_dia_rondas f = Inr (g, True)" "primer_habil_despues f g"
    by (rule ajustar_no_habil)
  have "dia_habil g" using g(2) by (simp add: primer_habil_despues_def)
  then have "ajustar_dia_rondas g = Inr (g, False)" by (rule ajustar_habil)
  then show ?thesis using g(1) by blast
qed

theorem ajustar_idempotente_witness:
  "ajustar_dia_rondas \<lparr>year = 2025, month = 1, day = 1\<rparr>
       = Inr (\<lparr>year = 2025, month = 1, day = 2\<rparr>, True)
   \<and> ajustar_dia_rondas \<lparr>year = 2025, month = 1, day = 2\<rparr>
       = Inr (\<lparr>year = 2025, month = 1, day = 2\<rparr>, False)"
proof -
  have v: "valid_date \<lparr>year = 2025, month = 1, day = 1\<rparr>" by code_simp
  have e: "ajustar_dia_rondas \<lparr>year = 2025, month = 1, day = 1\<rparr>
       = Inr (\<lparr>year = 2025, month = 1, day = 2\<rparr>, True)" by code_simp
  from ajustar_idempotente[OF v] e show ?thesis by auto
qed

text \<open>
  C8. The cases of 2025: January 1 is a holiday and January 2 (a Thursday) is not; rounds
  asked for January 1 move to January 2; Epiphany, January 6, is a Monday, stays on
  January 6 and is a holiday.
\<close>

theorem casos_2025:
  "es_festivo \<lparr>year = 2025, month = 1, day = 1\<rparr> = Inr True
   \<and> es_festivo \<lparr>year = 2025, month = 1, day = 2\<rparr> = Inr False
   \<and> weekday \<lparr>year = 2025, month = 1, day = 2\<rparr> = 3
   \<and> ajustar_dia_rondas \<lparr>year = 2025, month = 1, day = 1\<rparr>
       = Inr (\<lparr>year = 2025, month = 1, day = 2\<rparr>, True)
   \<and> weekday \<lparr>year = 2025, month = 1, day = 6\<rparr> = 0
   \<and> bindE (mk_date 2025 1 6) trasladar_a_lunes = Inr \<lparr>year = 2025, month = 1, day = 6\<rparr>
   \<and> es_festivo \<lparr>year = 2025, month = 1, day = 6\<rparr> = Inr True"
  by code_simp

text \<open>
  C9, as the code has it. The module checks no range of its own. The only years refused
  are those the date constructor refuses: \<^verbatim>\<open>calcular_domingo_pascua\<close> and
  \<^verbatim>\<open>obtener_festivos_a\~no\<close> raise \<^verbatim>\<open>ValueError\<close> exactly for a year outside 1 to 9999 that
  fits a C integer, raise \<^verbatim>\<open>OverflowError\<close> exactly for a year that does not fit one, and
  return dates for every year from 1 to 9999, the years before 1583 and outside
  1900 to 2100 included; the year 1000 is evaluated after the theorem.
\<close>

theorem error_solo_fuera_de_1_9999:
  "(calcular_domingo_pascua anio = Inl ValueError)
      = (c_int anio \<and> \<not> (1 \<le> anio \<and> anio \<le> 9999))
   \<and> (calcular_domingo_pascua anio = Inl OverflowError) = (\<not> c_int anio)
   \<and> (\<exists>f. calcular_domingo_pascua anio = Inr f) = (1 \<le> anio \<and> anio \<le> 9999)
   \<and> (obtener_festivos_anio anio = Inl ValueError)
      = (c_int anio \<and> \<not> (1 \<le> anio \<and> anio \<le> 9999))
   \<and> (obtener_festivos_anio anio = Inl OverflowError) = (\<not> c_int anio)
   \<and> (\<exists>fs. obtener_festivos_anio anio = Inr fs) = (1 \<le> anio \<and> anio \<le> 9999)"
proof (cases "1 \<le> anio \<and> anio \<le> 9999")
  case True
  then have r: "1 \<le> anio" "anio \<le> 9999" by simp_all
  have c: "c_int anio" using r by (simp add: c_int_def)
  obtain f where f: "calcular_domingo_pascua anio = Inr f" using pascua_ok[OF r] by metis
  obtain fs where fs: "obtener_festivos_anio anio = Inr fs" using obtener_festivos_ok[OF r] by metis
  show ?thesis using True c f fs by simp
next
  case False
  then show ?thesis using pascua_error[OF False] obtener_festivos_error[OF False] by simp
qed

theorem error_solo_fuera_de_1_9999_witness:
  "calcular_domingo_pascua 0 = Inl ValueError
   \<and> obtener_festivos_anio 10000 = Inl ValueError
   \<and> calcular_domingo_pascua 2147483648 = Inl OverflowError
   \<and> obtener_festivos_anio (- 2147483649) = Inl OverflowError
   \<and> calcular_domingo_pascua 1582 = Inr \<lparr>year = 1582, month = 4, day = 18\<rparr>"
proof -
  have "calcular_domingo_pascua 1582 = Inr \<lparr>year = 1582, month = 4, day = 18\<rparr>" by code_simp
  then show ?thesis
    using error_solo_fuera_de_1_9999[of 0] error_solo_fuera_de_1_9999[of 10000]
      error_solo_fuera_de_1_9999[of 2147483648] error_solo_fuera_de_1_9999[of "- 2147483649"]
    by (simp add: c_int_def)
qed

text \<open>
  C9 as stated fails at the year 1000, before the Gregorian calendar and outside 1900 to
  2100: Easter is computed (March 30) and the holiday list has its 18 entries.
\<close>

theorem pascua_anio_1000:
  "calcular_domingo_pascua 1000 = Inr \<lparr>year = 1000, month = 3, day = 30\<rparr>
   \<and> map_sum id length (obtener_festivos_anio 1000) = Inr 18"
  by code_simp

text \<open>
  C10. The zero guard of the Monday rule is dead code: the rule runs only for a date
  whose weekday is not Monday (not 0), and there \<open>(7 - weekday) mod 7\<close> lies between 1
  and 6, so the guard leaves it as it is. The four copies of the rule in the source
  are the one definition \<open>trasladar_a_lunes\<close> here.
\<close>

theorem guarda_cero_dead:
  assumes "weekday f \<noteq> 0"
  shows "1 \<le> dias_hasta_lunes (weekday f) \<and> dias_hasta_lunes (weekday f) \<le> 6
         \<and> guarda_cero (dias_hasta_lunes (weekday f)) = dias_hasta_lunes (weekday f)"
proof -
  have "0 \<le> weekday f" "weekday f < 7" by (simp_all add: weekday_def)
  then have w: "0 \<le> 7 - weekday f" "1 \<le> 7 - weekday f" "7 - weekday f < 7"
    using assms by simp_all
  have e: "(7 - weekday f) mod 7 = 7 - weekday f"
    using w(1,3) by (rule mod_pos_pos_trivial)
  show ?thesis unfolding dias_hasta_lunes_def guarda_cero_def e using w by simp
qed

theorem guarda_cero_dead_witness:
  "weekday \<lparr>year = 2025, month = 1, day = 1\<rparr> = 2
   \<and> dias_hasta_lunes (weekday \<lparr>year = 2025, month = 1, day = 1\<rparr>) = 5
   \<and> guarda_cero (dias_hasta_lunes (weekday \<lparr>year = 2025, month = 1, day = 1\<rparr>)) = 5"
proof -
  have w: "weekday \<lparr>year = 2025, month = 1, day = 1\<rparr> = 2" by code_simp
  then have "weekday \<lparr>year = 2025, month = 1, day = 1\<rparr> \<noteq> 0" by simp
  from guarda_cero_dead[OF this] w show ?thesis by (simp add: dias_hasta_lunes_def)
qed

end
